theory Spec2Isabelle
  imports Main "HOL-Library.AList"
begin

section \<open>Values shared by the store and the pipeline\<close>

text \<open>
  A parsed JSON document, as \<^verbatim>\<open>JSON.parse\<close> returns it. An object is the list of its
  properties in creation order, each key once. A number is kept as the literal that
  denotes it: no operation of the repository computes with a number of a response.
  Strings are sequences of Isabelle characters, which stand for the code units below 256.
\<close>

datatype json =
    JNull
  | JBool bool
  | JNum string
  | JStr string
  | JArr "json list"
  | JObj "(string \<times> json) list"

text \<open>
  What a \<^verbatim>\<open>throw\<close> carries: an instance of \<^verbatim>\<open>Error\<close> (or of a subclass) with its
  message, or some other value.
\<close>

datatype exn = Error string | NotAnError

section \<open>The job store, \<^verbatim>\<open>src/lib/store.ts\<close>\<close>

datatype status = pending | processing | completed | failed

text \<open>
  \<^verbatim>\<open>interface AnalysisJob\<close>. The optional fields \<^verbatim>\<open>result\<close> and \<^verbatim>\<open>error\<close> are options;
  \<^verbatim>\<open>timestamp\<close> is a number of milliseconds, as \<^verbatim>\<open>Date.now()\<close> returns it.
\<close>

record AnalysisJob =
  status :: status
  result :: "json option"
  error :: "string option"
  timestamp :: int

text \<open>
  The argument of \<^verbatim>\<open>updateJob\<close>, a \<^verbatim>\<open>Partial<AnalysisJob>\<close>: each field is present or not.
\<close>

record PartialJob =
  upd_status :: "status option"
  upd_result :: "json option"
  upd_error :: "string option"
  upd_timestamp :: "int option"

text \<open>
  The directory \<^verbatim>\<open>/tmp/analysis-jobs\<close> is the list of its entries, file name and file.
  The store only ever evaluates \<^verbatim>\<open>JSON.parse(fs.readFileSync(p, 'utf8')) as AnalysisJob\<close>
  on a file, so a file is modelled by what this expression does: \<open>Unreadable\<close> when
  \<^verbatim>\<open>readFileSync\<close> throws, \<open>Garbled\<close> when the text is read and \<^verbatim>\<open>JSON.parse\<close> throws,
  \<open>Document job\<close> when the text is the serialisation of \<open>job\<close> (the store writes
  \<^verbatim>\<open>JSON.stringify(job)\<close>, which \<^verbatim>\<open>JSON.parse\<close> reads back). Writing an entry and unlinking
  an existing entry succeed. Job ids are tokens without a path separator (the
  endpoint makes them with \<^verbatim>\<open>crypto.randomUUID\<close>), so that \<^verbatim>\<open>path.join(storePath, id + '.json')\<close>
  is the entry named \<open>jobId @ ''.json''\<close>. The parameter \<^verbatim>\<open>id\<close> of the store's methods is
  written \<open>jobId\<close>.
\<close>

datatype jobfile = Unreadable | Garbled | Document AnalysisJob

type_synonym directory = "(string \<times> jobfile) list"

definition getJobPath :: "string \<Rightarrow> string" where
  "getJobPath jobId = jobId @ ''.json''"

definition existsSync :: "string \<Rightarrow> directory \<Rightarrow> bool" where
  "existsSync p d = (map_of d p \<noteq> None)"

text \<open>\<^verbatim>\<open>JSON.parse(fs.readFileSync(jobPath, 'utf8')) as AnalysisJob\<close>\<close>

definition readJob :: "string \<Rightarrow> directory \<Rightarrow> exn + AnalysisJob" where
  "readJob p d =
     (case map_of d p of
        None \<Rightarrow> Inl (Error ''ENOENT: no such file or directory'')
      | Some Unreadable \<Rightarrow> Inl (Error ''EACCES: permission denied'')
      | Some Garbled \<Rightarrow> Inl (Error ''Unexpected token in JSON'')
      | Some (Document job) \<Rightarrow> Inr job)"

text \<open>\<^verbatim>\<open>fs.writeFileSync(jobPath, JSON.stringify(job))\<close>\<close>

definition writeJob :: "string \<Rightarrow> AnalysisJob \<Rightarrow> directory \<Rightarrow> directory" where
  "writeJob p job d = AList.update p (Document job) d"

definition unlinkSync :: "string \<Rightarrow> directory \<Rightarrow> exn + directory" where
  "unlinkSync p d =
     (if existsSync p d then Inr (AList.delete p d)
      else Inl (Error ''ENOENT: no such file or directory''))"

text \<open>
  \<^verbatim>\<open>createJob(id)\<close>; \<open>now\<close> is the value of its \<^verbatim>\<open>Date.now()\<close>. Returns the id and the
  directory after the write.
\<close>

definition createJob :: "string \<Rightarrow> int \<Rightarrow> directory \<Rightarrow> string \<times> directory" where
  "createJob jobId now d =
     (let job = \<lparr>status = pending, result = None, error = None, timestamp = now\<rparr>
      in (jobId, writeJob (getJobPath jobId) job d))"

text \<open>
  \<^verbatim>\<open>getJob(id)\<close>. Every exception of the \<^verbatim>\<open>try\<close> block ends in the \<^verbatim>\<open>catch\<close>, which
  returns \<^verbatim>\<open>undefined\<close> (\<open>None\<close>).
\<close>

definition getJob :: "string \<Rightarrow> int \<Rightarrow> directory \<Rightarrow> AnalysisJob option \<times> directory" where
  "getJob jobId now d =
     (let jobPath = getJobPath jobId in
      if \<not> existsSync jobPath d then (None, d)
      else
        (case readJob jobPath d of
           Inl e \<Rightarrow> (None, d)
         | Inr job \<Rightarrow>
             if now - timestamp job > 60 * 60 * 1000 then
               (case unlinkSync jobPath d of
                  Inl e \<Rightarrow> (None, d)
                | Inr d' \<Rightarrow> (None, d'))
             else (Some job, d)))"

text \<open>
  The object \<^verbatim>\<open>{ ...existingJob, ...update, timestamp: Date.now() }\<close>: a field of the
  update, when present, replaces the field of the existing job, and the time stamp is
  always the new one.
\<close>

definition spread :: "AnalysisJob \<Rightarrow> PartialJob \<Rightarrow> int \<Rightarrow> AnalysisJob" where
  "spread existingJob update now =
     \<lparr>status = (case upd_status update of None \<Rightarrow> status existingJob | Some v \<Rightarrow> v),
      result = (case upd_result update of None \<Rightarrow> result existingJob | Some v \<Rightarrow> Some v),
      error = (case upd_error update of None \<Rightarrow> error existingJob | Some v \<Rightarrow> Some v),
      timestamp = now\<rparr>"

text \<open>
  \<^verbatim>\<open>updateJob(id, update)\<close>; \<open>now\<close> is the time read by the call of \<^verbatim>\<open>getJob\<close> and
  \<open>now'\<close> the time written into the record.
\<close>

definition updateJob :: "string \<Rightarrow> PartialJob \<Rightarrow> int \<Rightarrow> int \<Rightarrow> directory \<Rightarrow> directory" where
  "updateJob jobId update now now' d =
     (let jobPath = getJobPath jobId in
      case getJob jobId now d of
        (Some existingJob, d') \<Rightarrow> writeJob jobPath (spread existingJob update now') d'
      | (None, d') \<Rightarrow> d')"

text \<open>
  The loop of \<^verbatim>\<open>cleanup()\<close> over the names that \<^verbatim>\<open>readdirSync\<close> returned. An entry that
  cannot be read or parsed is unlinked in the inner \<^verbatim>\<open>catch\<close>; when that \<^verbatim>\<open>unlinkSync\<close>
  throws in its turn, the outer \<^verbatim>\<open>catch\<close> ends the loop. (An \<^verbatim>\<open>unlinkSync\<close> that throws in
  the \<^verbatim>\<open>try\<close> block is repeated by the inner \<^verbatim>\<open>catch\<close> and throws again, with the same
  end.)
\<close>

fun cleanup_loop :: "int \<Rightarrow> string list \<Rightarrow> directory \<Rightarrow> directory" where
  "cleanup_loop oneHourAgo [] d = d"
| "cleanup_loop oneHourAgo (file # files) d =
     (case readJob file d of
        Inr job \<Rightarrow>
          if timestamp job < oneHourAgo then
            (case unlinkSync file d of
               Inl e \<Rightarrow> d
             | Inr d' \<Rightarrow> cleanup_loop oneHourAgo files d')
          else cleanup_loop oneHourAgo files d
      | Inl e \<Rightarrow>
          (case unlinkSync file d of
             Inl e' \<Rightarrow> d
           | Inr d' \<Rightarrow> cleanup_loop oneHourAgo files d'))"

definition readdirSync :: "directory \<Rightarrow> string list" where
  "readdirSync d = map fst d"

definition cleanup :: "int \<Rightarrow> directory \<Rightarrow> directory" where
  "cleanup now d =
     (let oneHourAgo = now - 60 * 60 * 1000
      in cleanup_loop oneHourAgo (readdirSync d) d)"

text \<open>
  The calls that reach the store, each with the times its \<^verbatim>\<open>Date.now()\<close> reads, and the
  directory after a sequence of calls.
\<close>

datatype call =
    CreateJob string int
  | UpdateJob string PartialJob int int
  | GetJob string int
  | Cleanup int

fun exec :: "call \<Rightarrow> directory \<Rightarrow> directory" where
  "exec (CreateJob jobId now) d = snd (createJob jobId now d)"
| "exec (UpdateJob jobId update now now') d = updateJob jobId update now now' d"
| "exec (GetJob jobId now) d = snd (getJob jobId now d)"
| "exec (Cleanup now) d = cleanup now d"

definition run :: "call list \<Rightarrow> directory \<Rightarrow> directory" where
  "run calls d = fold exec calls d"

text \<open>
  The entries that a sweep at time \<open>now\<close> is to remove, in the words of the specification:
  a record older than the retention window, or an entry that cannot be parsed.
\<close>

definition swept :: "int \<Rightarrow> jobfile \<Rightarrow> bool" where
  "swept now f =
     (case f of
        Document job \<Rightarrow> timestamp job < now - 3600000
      | Unreadable \<Rightarrow> True
      | Garbled \<Rightarrow> True)"

section \<open>The runtime: strings, JSON, conversions\<close>

text \<open>
  The functions of the JavaScript runtime that the repository calls, as ECMAScript defines
  them on strings of code units below 256. On this alphabet \<^verbatim>\<open>trim\<close> removes the
  characters 9 to 13, 32 and 160 at both ends, and \<^verbatim>\<open>encodeURIComponent\<close> keeps letters,
  digits and \<^verbatim>\<open>-_.!~*'()\<close> and writes every other code unit as the bytes of its UTF-8
  form, each as \<^verbatim>\<open>%XX\<close>; no string of the alphabet has a lone surrogate, so it does not
  throw.
\<close>

definition startsWith :: "string \<Rightarrow> string \<Rightarrow> bool" where
  "startsWith s p = (take (length p) s = p)"

definition isWhiteSpace :: "char \<Rightarrow> bool" where
  "isWhiteSpace c = (of_char c \<in> {9, 10, 11, 12, 13, 32, 160 :: nat})"

definition trim :: "string \<Rightarrow> string" where
  "trim s = rev (dropWhile isWhiteSpace (rev (dropWhile isWhiteSpace s)))"

definition isDigit :: "char \<Rightarrow> bool" where
  "isDigit c = (48 \<le> (of_char c :: nat) \<and> (of_char c :: nat) \<le> 57)"

definition isAlpha :: "char \<Rightarrow> bool" where
  "isAlpha c =
     (65 \<le> (of_char c :: nat) \<and> (of_char c :: nat) \<le> 90 \<or>
      97 \<le> (of_char c :: nat) \<and> (of_char c :: nat) \<le> 122)"

definition hexDigit :: "nat \<Rightarrow> char" where
  "hexDigit n = ''0123456789ABCDEF'' ! n"

definition percent :: "nat \<Rightarrow> string" where
  "percent b = [CHR ''%'', hexDigit (b div 16), hexDigit (b mod 16)]"

definition uriUnreserved :: "char \<Rightarrow> bool" where
  "uriUnreserved c = (isAlpha c \<or> isDigit c \<or> c \<in> set (''-_.!~*()'' @ [CHR 0x27]))"

definition encodeURIComponent :: "string \<Rightarrow> string" where
  "encodeURIComponent s =
     concat (map (\<lambda>c.
       if uriUnreserved c then [c]
       else if (of_char c :: nat) < 128 then percent (of_char c)
       else percent (192 + of_char c div 64) @ percent (128 + of_char c mod 64)) s)"

fun showNat :: "nat \<Rightarrow> string" where
  "showNat n =
     (if n < 10 then [''0123456789'' ! n]
      else showNat (n div 10) @ [''0123456789'' ! (n mod 10)])"

declare showNat.simps [simp del]


subsection \<open>\<^verbatim>\<open>JSON.parse\<close>\<close>

text \<open>
  The grammar of JSON: white space is the characters 9, 10, 13 and 32; a string has no
  control character and the escapes \<^verbatim>\<open>\" \\ \/ \b \f \n \r \t \uXXXX\<close>; a number is
  \<^verbatim>\<open>-?(0|[1-9][0-9]*)(\.[0-9]+)?([eE][+-]?[0-9]+)?\<close>. \<open>None\<close> is the \<^verbatim>\<open>SyntaxError\<close>. An
  escape \<^verbatim>\<open>\uXXXX\<close> above \<^verbatim>\<open>00FF\<close> names a code unit that the alphabet does not have:
  the model gives \<open>None\<close> for such a text, which is therefore outside of what the
  theorems on parsed responses say.
\<close>

definition isJsonWs :: "char \<Rightarrow> bool" where
  "isJsonWs c = (of_char c \<in> {9, 10, 13, 32 :: nat})"

definition skipWs :: "string \<Rightarrow> string" where
  "skipWs s = dropWhile isJsonWs s"

definition hexValue :: "char \<Rightarrow> nat option" where
  "hexValue c =
     (let n = (of_char c :: nat) in
      if 48 \<le> n \<and> n \<le> 57 then Some (n - 48)
      else if 65 \<le> n \<and> n \<le> 70 then Some (n - 55)
      else if 97 \<le> n \<and> n \<le> 102 then Some (n - 87)
      else None)"

definition unicodeEscape :: "string \<Rightarrow> char option" where
  "unicodeEscape h =
     (case map hexValue h of
        [Some a, Some b, Some c, Some d] \<Rightarrow>
          if a = 0 \<and> b = 0 then Some (char_of (16 * c + d)) else None
      | _ \<Rightarrow> None)"

definition simpleEscape :: "char \<Rightarrow> char option" where
  "simpleEscape e =
     (if e = CHR 0x22 then Some (CHR 0x22)
      else if e = CHR 0x5C then Some (CHR 0x5C)
      else if e = CHR ''/'' then Some (CHR ''/'')
      else if e = CHR ''b'' then Some (CHR 0x08)
      else if e = CHR ''f'' then Some (CHR 0x0C)
      else if e = CHR ''n'' then Some (CHR 0x0A)
      else if e = CHR ''r'' then Some (CHR 0x0D)
      else if e = CHR ''t'' then Some (CHR 0x09)
      else None)"

fun lexString :: "string \<Rightarrow> (string \<times> string) option" where
  "lexString [] = None"
| "lexString (c # cs) =
     (if c = CHR 0x22 then Some ([], cs)
      else if c = CHR 0x5C then
        (case cs of
           [] \<Rightarrow> None
         | e # r \<Rightarrow>
             if e = CHR ''u'' then
               (case unicodeEscape (take 4 r) of
                  None \<Rightarrow> None
                | Some u \<Rightarrow>
                    (case lexString (drop 4 r) of
                       None \<Rightarrow> None
                     | Some (str, rest) \<Rightarrow> Some (u # str, rest)))
             else
               (case simpleEscape e of
                  None \<Rightarrow> None
                | Some u \<Rightarrow>
                    (case lexString r of
                       None \<Rightarrow> None
                     | Some (str, rest) \<Rightarrow> Some (u # str, rest))))
      else if (of_char c :: nat) < 32 then None
      else
        (case lexString cs of
           None \<Rightarrow> None
         | Some (str, rest) \<Rightarrow> Some (c # str, rest)))"

definition lexDigits :: "string \<Rightarrow> (string \<times> string) option" where
  "lexDigits s =
     (if takeWhile isDigit s = [] then None
      else Some (takeWhile isDigit s, dropWhile isDigit s))"

definition lexInt :: "string \<Rightarrow> (string \<times> string) option" where
  "lexInt s = (if startsWith s ''0'' then Some (''0'', tl s) else lexDigits s)"

definition lexFraction :: "string \<Rightarrow> (string \<times> string) option" where
  "lexFraction s =
     (if startsWith s ''.'' then
        (case lexDigits (tl s) of
           None \<Rightarrow> None
         | Some (ds, rest) \<Rightarrow> Some (CHR ''.'' # ds, rest))
      else Some ([], s))"

definition lexExponent :: "string \<Rightarrow> (string \<times> string) option" where
  "lexExponent s =
     (if startsWith s ''e'' \<or> startsWith s ''E'' then
        (let sign = (if startsWith (tl s) ''+'' \<or> startsWith (tl s) ''-'' then take 1 (tl s) else [])
         in case lexDigits (drop (length sign) (tl s)) of
              None \<Rightarrow> None
            | Some (ds, rest) \<Rightarrow> Some (hd s # sign @ ds, rest))
      else Some ([], s))"

definition lexNumber :: "string \<Rightarrow> (string \<times> string) option" where
  "lexNumber s =
     (let sign = (if startsWith s ''-'' then ''-'' else [])
      in case lexInt (drop (length sign) s) of
           None \<Rightarrow> None
         | Some (i, r1) \<Rightarrow>
             (case lexFraction r1 of
                None \<Rightarrow> None
              | Some (f, r2) \<Rightarrow>
                  (case lexExponent r2 of
                     None \<Rightarrow> None
                   | Some (e, r3) \<Rightarrow> Some (sign @ i @ f @ e, r3))))"

text \<open>
  The properties of an object literal in the order of their first occurrence; a repeated
  key keeps its place and takes the later value.
\<close>

definition objectOf :: "(string \<times> json) list \<Rightarrow> json" where
  "objectOf members = JObj (fold (\<lambda>(k, v). AList.update k v) members [])"

text \<open>
  The parser of values, of the elements of an array behind its \<^verbatim>\<open>[\<close> and of the members
  of an object behind its \<^verbatim>\<open>{\<close>; each returns what it parsed and the rest of the text.
  The first argument bounds the number of nested calls. A call of \<open>parseElements\<close> or
  \<open>parseMembers\<close> is behind at least one more character than the call around it, and a call
  of \<open>parseValue\<close> inside them is one call deeper: twice the length of the text is enough
  (lemma \<open>JSON_parse_fuel\<close> below).
\<close>

fun parseValue :: "nat \<Rightarrow> string \<Rightarrow> (json \<times> string) option"
  and parseElements :: "nat \<Rightarrow> string \<Rightarrow> (json list \<times> string) option"
  and parseMembers :: "nat \<Rightarrow> string \<Rightarrow> ((string \<times> json) list \<times> string) option"
where
  "parseValue 0 s = None"
| "parseValue (Suc n) s =
     (let t = skipWs s in
      if startsWith t ''null'' then Some (JNull, drop 4 t)
      else if startsWith t ''true'' then Some (JBool True, drop 4 t)
      else if startsWith t ''false'' then Some (JBool False, drop 5 t)
      else if startsWith t [CHR 0x22] then
        (case lexString (tl t) of
           None \<Rightarrow> None
         | Some (str, rest) \<Rightarrow> Some (JStr str, rest))
      else if startsWith t ''['' then
        (if startsWith (skipWs (tl t)) '']'' then Some (JArr [], tl (skipWs (tl t)))
         else
           (case parseElements n (tl t) of
              None \<Rightarrow> None
            | Some (vs, rest) \<Rightarrow> Some (JArr vs, rest)))
      else if startsWith t ''{'' then
        (if startsWith (skipWs (tl t)) ''}'' then Some (JObj [], tl (skipWs (tl t)))
         else
           (case parseMembers n (tl t) of
              None \<Rightarrow> None
            | Some (ms, rest) \<Rightarrow> Some (objectOf ms, rest)))
      else
        (case lexNumber t of
           None \<Rightarrow> None
         | Some (lexeme, rest) \<Rightarrow> Some (JNum lexeme, rest)))"
| "parseElements 0 s = None"
| "parseElements (Suc n) s =
     (case parseValue n s of
        None \<Rightarrow> None
      | Some (v, r) \<Rightarrow>
          if startsWith (skipWs r) '','' then
            (case parseElements n (tl (skipWs r)) of
               None \<Rightarrow> None
             | Some (vs, rest) \<Rightarrow> Some (v # vs, rest))
          else if startsWith (skipWs r) '']'' then Some ([v], tl (skipWs r))
          else None)"
| "parseMembers 0 s = None"
| "parseMembers (Suc n) s =
     (if \<not> startsWith (skipWs s) [CHR 0x22] then None
      else
        (case lexString (tl (skipWs s)) of
           None \<Rightarrow> None
         | Some (k, r) \<Rightarrow>
             if \<not> startsWith (skipWs r) '':'' then None
             else
               (case parseValue n (tl (skipWs r)) of
                  None \<Rightarrow> None
                | Some (v, r') \<Rightarrow>
                    if startsWith (skipWs r') '','' then
                      (case parseMembers n (tl (skipWs r')) of
                         None \<Rightarrow> None
                       | Some (ms, rest) \<Rightarrow> Some ((k, v) # ms, rest))
                    else if startsWith (skipWs r') ''}'' then Some ([(k, v)], tl (skipWs r'))
                    else None)))"

definition JSON_parse :: "string \<Rightarrow> json option" where
  "JSON_parse s =
     (case parseValue (2 * length s + 2) s of
        None \<Rightarrow> None
      | Some (v, rest) \<Rightarrow> if skipWs rest = [] then Some v else None)"


subsection \<open>Property access and conversion to a string\<close>

text \<open>
  \<^verbatim>\<open>v.key\<close> for a value that came out of \<^verbatim>\<open>JSON.parse\<close> and a key that is neither an
  index nor the name of a built-in property (the pipeline reads \<^verbatim>\<open>ingredients\<close> and
  \<^verbatim>\<open>name\<close>): a \<^verbatim>\<open>TypeError\<close> on \<^verbatim>\<open>null\<close>, the property of an object when it has one,
  \<^verbatim>\<open>undefined\<close> otherwise.
\<close>

definition getProperty :: "json \<Rightarrow> string \<Rightarrow> exn + json option" where
  "getProperty v key =
     (case v of
        JNull \<Rightarrow> Inl (Error ''Cannot read properties of null'')
      | JObj props \<Rightarrow> Inr (map_of props key)
      | _ \<Rightarrow> Inr None)"

fun intercalate :: "string \<Rightarrow> string list \<Rightarrow> string" where
  "intercalate sep [] = []"
| "intercalate sep [x] = x"
| "intercalate sep (x # y # ys) = x @ sep @ intercalate sep (y # ys)"

text \<open>
  \<^verbatim>\<open>ToString\<close>, which a template literal and \<^verbatim>\<open>encodeURIComponent\<close> apply to their
  argument; \<open>None\<close> is \<^verbatim>\<open>undefined\<close>. An array joins its elements with commas, \<^verbatim>\<open>null\<close>
  elements as empty strings. An object is \<^verbatim>\<open>[object Object]\<close>, unless it has a property
  \<^verbatim>\<open>toString\<close> of its own: that one is not callable, and the conversion throws.
\<close>

fun js_toString :: "json \<Rightarrow> string option"
  and js_join :: "json list \<Rightarrow> string list option"
where
  "js_toString JNull = Some ''null''"
| "js_toString (JBool b) = Some (if b then ''true'' else ''false'')"
| "js_toString (JNum lexeme) = Some lexeme"
| "js_toString (JStr s) = Some s"
| "js_toString (JArr vs) =
     (case js_join vs of None \<Rightarrow> None | Some strs \<Rightarrow> Some (intercalate '','' strs))"
| "js_toString (JObj props) =
     (if map_of props ''toString'' = None then Some ''[object Object]'' else None)"
| "js_join [] = Some []"
| "js_join (v # vs) =
     (case (if v = JNull then Some [] else js_toString v) of
        None \<Rightarrow> None
      | Some str \<Rightarrow> (case js_join vs of None \<Rightarrow> None | Some strs \<Rightarrow> Some (str # strs)))"

definition ToString :: "json option \<Rightarrow> exn + string" where
  "ToString v =
     (case v of
        None \<Rightarrow> Inr ''undefined''
      | Some j \<Rightarrow>
          (case js_toString j of
             None \<Rightarrow> Inl (Error ''Cannot convert object to primitive value'')
           | Some str \<Rightarrow> Inr str))"

text \<open>
  The own enumerable properties of a value, which \<^verbatim>\<open>{...v}\<close> copies: the properties of
  an object, the elements of an array and the characters of a string under their indices.
  The list keeps the order in which the properties were made; where the runtime lists
  index-like keys first, the objects are the same up to this order.
\<close>

definition ownProperties :: "json \<Rightarrow> (string \<times> json) list" where
  "ownProperties v =
     (case v of
        JObj props \<Rightarrow> props
      | JArr vs \<Rightarrow> zip (map showNat [0..<length vs]) vs
      | JStr s \<Rightarrow> zip (map showNat [0..<length s]) (map (\<lambda>c. JStr [c]) s)
      | _ \<Rightarrow> [])"

section \<open>The analysis pipeline of the submission route, \<^verbatim>\<open>src/unnamed/part_004\<close>\<close>

text \<open>
  \<^verbatim>\<open>text.replace(/```json\n?|\n?```/g, '')\<close>: at each position the first alternative
  is tried before the second, each with its optional newline before without it; a match
  is removed and the scan goes on behind it.
\<close>

fun replaceFences :: "string \<Rightarrow> string" where
  "replaceFences [] = []"
| "replaceFences (c # cs) =
     (if startsWith (c # cs) ''```json\<newline>'' then replaceFences (drop 7 cs)
      else if startsWith (c # cs) ''```json'' then replaceFences (drop 6 cs)
      else if startsWith (c # cs) ''\<newline>```'' then replaceFences (drop 3 cs)
      else if startsWith (c # cs) ''```'' then replaceFences (drop 2 cs)
      else c # replaceFences cs)"

definition cleanJsonResponse :: "string \<Rightarrow> string" where
  "cleanJsonResponse text = trim (replaceFences text)"

definition searchPubMedPapers :: "json option \<Rightarrow> exn + json" where
  "searchPubMedPapers ingredient =
     (case ToString ingredient of
        Inl e \<Rightarrow> Inl e
      | Inr str \<Rightarrow>
          (let searchTerm = encodeURIComponent str;
               baseUrl = ''https://pubmed.ncbi.nlm.nih.gov/?term=''
           in Inr (JArr [JObj [(''title'', JStr (''Research about '' @ str)),
                               (''url'', JStr (baseUrl @ searchTerm))]])))"

text \<open>
  The callback of \<^verbatim>\<open>parsedResponse.ingredients.map\<close>: the ingredient with the property
  \<^verbatim>\<open>papers\<close> set, or the exception that rejects its promise.
\<close>

definition withPapers :: "json \<Rightarrow> exn + json" where
  "withPapers ingredient =
     (case getProperty ingredient ''name'' of
        Inl e \<Rightarrow> Inl e
      | Inr name \<Rightarrow>
          (case searchPubMedPapers name of
             Inl e \<Rightarrow> Inl e
           | Inr papers \<Rightarrow>
               Inr (JObj (AList.update ''papers'' papers (ownProperties ingredient)))))"

text \<open>\<^verbatim>\<open>await Promise.all(promises)\<close>: the values, or the first rejection.\<close>

fun promiseAll :: "(exn + 'a) list \<Rightarrow> exn + 'a list" where
  "promiseAll [] = Inr []"
| "promiseAll (Inl e # ps) = Inl e"
| "promiseAll (Inr v # ps) =
     (case promiseAll ps of Inl e \<Rightarrow> Inl e | Inr vs \<Rightarrow> Inr (v # vs))"

text \<open>
  The inner \<^verbatim>\<open>try\<close> block of \<^verbatim>\<open>analyzeImage\<close> behind \<^verbatim>\<open>JSON.parse\<close>: the papers are
  added to each ingredient. Only an array has a callable \<^verbatim>\<open>map\<close>: on every other value of
  \<^verbatim>\<open>parsedResponse.ingredients\<close> the call is a \<^verbatim>\<open>TypeError\<close>.
\<close>

definition addPapers :: "json \<Rightarrow> exn + json" where
  "addPapers parsedResponse =
     (case getProperty parsedResponse ''ingredients'' of
        Inl e \<Rightarrow> Inl e
      | Inr (Some (JArr ingredients)) \<Rightarrow>
          (case promiseAll (map withPapers ingredients) of
             Inl e \<Rightarrow> Inl e
           | Inr ingredientsWithPapers \<Rightarrow>
               Inr (JObj [(''ingredients'', JArr ingredientsWithPapers)]))
      | Inr _ \<Rightarrow> Inl (Error ''parsedResponse.ingredients.map is not a function''))"

text \<open>The whole inner \<^verbatim>\<open>try\<close> block.\<close>

definition parseAndEnrich :: "string \<Rightarrow> exn + json" where
  "parseAndEnrich cleanedContent =
     (case JSON_parse cleanedContent of
        None \<Rightarrow> Inl (Error ''Unexpected token in JSON'')
      | Some parsedResponse \<Rightarrow> addPapers parsedResponse)"

text \<open>
  What \<^verbatim>\<open>await openai.chat.completions.create(...)\<close> gives: a rejection, or a response,
  of which the pipeline reads \<^verbatim>\<open>response.choices[0]?.message?.content\<close> only (\<open>None\<close>
  when it is \<^verbatim>\<open>null\<close> or \<^verbatim>\<open>undefined\<close>).
\<close>

datatype completion = Rejected exn | Resolved "string option"

text \<open>
  \<^verbatim>\<open>analyzeImage(base64Image)\<close>, as a function of the answer of the external service: the
  image reaches the service only. The outer \<^verbatim>\<open>catch\<close> rethrows what it caught; the inner
  one replaces every exception by the error \<^verbatim>\<open>Failed to parse analysis results\<close>.
\<close>

definition analyzeImage :: "completion \<Rightarrow> exn + json" where
  "analyzeImage response =
     (case response of
        Rejected e \<Rightarrow> Inl e
      | Resolved content \<Rightarrow>
          (case content of
             None \<Rightarrow> Inl (Error ''No content in response'')
           | Some text \<Rightarrow>
               if text = [] then Inl (Error ''No content in response'')
               else
                 (case parseAndEnrich (cleanJsonResponse text) of
                    Inl e \<Rightarrow> Inl (Error ''Failed to parse analysis results'')
                  | Inr r \<Rightarrow> Inr r)))"

section \<open>The parser of the synchronous route, \<^verbatim>\<open>src/unnamed/part_003\<close>\<close>

text \<open>
  \<^verbatim>\<open>cleanText.match(/\{[\s\S]*\}/)\<close>: the text from the first \<^verbatim>\<open>{\<close> to the last \<^verbatim>\<open>}\<close>,
  when the last \<^verbatim>\<open>}\<close> is behind the first \<^verbatim>\<open>{\<close>.
\<close>

definition matchObject :: "string \<Rightarrow> string option" where
  "matchObject s =
     (let fromBrace = dropWhile (\<lambda>c. c \<noteq> CHR ''{'') s;
          toBrace = rev (dropWhile (\<lambda>c. c \<noteq> CHR ''}'') (rev fromBrace))
      in if toBrace = [] then None else Some toBrace)"

text \<open>
  \<^verbatim>\<open>extractJsonFromText(text)\<close>; its \<^verbatim>\<open>null\<close> is \<open>JNull\<close>, as is the value of the text
  \<^verbatim>\<open>null\<close>.
\<close>

definition extractJsonFromText :: "string \<Rightarrow> json" where
  "extractJsonFromText text =
     (let cleanText = trim (replaceFences text) in
      case JSON_parse cleanText of
        Some v \<Rightarrow> v
      | None \<Rightarrow>
          (case matchObject cleanText of
             None \<Rightarrow> JNull
           | Some jsonMatch \<Rightarrow>
               (case JSON_parse jsonMatch of
                  None \<Rightarrow> JNull
                | Some v \<Rightarrow> v)))"

section \<open>The endpoints\<close>

text \<open>
  A response is its status code and its JSON body: \<^verbatim>\<open>{jobId}\<close>, \<^verbatim>\<open>{error}\<close> or a job
  record.
\<close>

datatype body = JobIdBody string | ErrorBody string | JobBody AnalysisJob

record response =
  code :: nat
  body :: body

text \<open>
  A submission: \<^verbatim>\<open>await req.formData()\<close> rejects (\<open>Malformed\<close>), or gives a form, of which
  the handler reads \<^verbatim>\<open>formData.get('image')\<close>: nothing, a file (type and bytes) or a text.
\<close>

datatype field = FileField string string | TextField string

datatype request = Malformed | Form "field option"

text \<open>The detached function that \<^verbatim>\<open>POST\<close> starts: its closure holds the job id.\<close>

datatype task = Task string

text \<open>
  \<^verbatim>\<open>POST(req)\<close> of the submission route (\<^verbatim>\<open>src/unnamed/part_004\<close>) up to its \<^verbatim>\<open>return\<close>. The
  value of \<^verbatim>\<open>formData.get('image')\<close> is written \<open>image'\<close>. The arguments behind the
  request are the value of \<^verbatim>\<open>crypto.randomUUID()\<close> and the times read by \<^verbatim>\<open>createJob\<close>
  and by \<^verbatim>\<open>updateJob\<close>. A text field has no \<^verbatim>\<open>arrayBuffer\<close>: the call throws after the
  job was created, and the outer \<^verbatim>\<open>catch\<close> answers 500.
\<close>

definition POST ::
  "request \<Rightarrow> string \<Rightarrow> int \<Rightarrow> int \<Rightarrow> int \<Rightarrow> directory \<Rightarrow> response \<times> directory \<times> task option"
where
  "POST req jobId now now' now'' d =
     (case req of
        Malformed \<Rightarrow> (\<lparr>code = 500, body = ErrorBody ''Failed to start analysis''\<rparr>, d, None)
      | Form image' \<Rightarrow>
          (case image' of
             None \<Rightarrow> (\<lparr>code = 400, body = ErrorBody ''No image provided''\<rparr>, d, None)
           | Some (TextField text) \<Rightarrow>
               if text = [] then
                 (\<lparr>code = 400, body = ErrorBody ''No image provided''\<rparr>, d, None)
               else
                 (\<lparr>code = 500, body = ErrorBody ''Failed to start analysis''\<rparr>,
                  snd (createJob jobId now d), None)
           | Some (FileField mime bytes) \<Rightarrow>
               (\<lparr>code = 200, body = JobIdBody jobId\<rparr>,
                updateJob jobId
                  \<lparr>upd_status = Some processing, upd_result = None, upd_error = None,
                   upd_timestamp = None\<rparr>
                  now' now'' (snd (createJob jobId now d)),
                Some (Task jobId))))"

text \<open>\<^verbatim>\<open>error instanceof Error ? error.message : 'Unknown error'\<close>\<close>

definition errorMessage :: "exn \<Rightarrow> string" where
  "errorMessage e = (case e of Error message \<Rightarrow> message | NotAnError \<Rightarrow> ''Unknown error'')"

text \<open>
  The detached function, run on the answer of the external service. \<open>now\<close> is the time
  in the update, \<open>now'\<close> and \<open>now''\<close> are the times that \<^verbatim>\<open>updateJob\<close> reads. The function
  returns the directory: \<^verbatim>\<open>updateJob\<close> catches what its body throws, so neither the
  \<^verbatim>\<open>try\<close> block behind \<^verbatim>\<open>analyzeImage\<close> nor the \<^verbatim>\<open>catch\<close> block throws.
\<close>

definition detached :: "task \<Rightarrow> completion \<Rightarrow> int \<Rightarrow> int \<Rightarrow> int \<Rightarrow> directory \<Rightarrow> directory" where
  "detached t response now now' now'' d =
     (case t of Task jobId \<Rightarrow>
        (case analyzeImage response of
           Inr result' \<Rightarrow>
             updateJob jobId
               \<lparr>upd_status = Some completed, upd_result = Some result', upd_error = None,
                upd_timestamp = Some now\<rparr> now' now'' d
         | Inl e \<Rightarrow>
             updateJob jobId
               \<lparr>upd_status = Some failed, upd_result = None, upd_error = Some (errorMessage e),
                upd_timestamp = Some now\<rparr> now' now'' d))"

text \<open>
  \<^verbatim>\<open>GET(req)\<close> of \<^verbatim>\<open>src/app/api/analyze/status/route.ts\<close>; the argument is
  \<^verbatim>\<open>searchParams.get('jobId')\<close>.
\<close>

definition GET :: "string option \<Rightarrow> int \<Rightarrow> directory \<Rightarrow> response \<times> directory" where
  "GET jobId now d =
     (case jobId of
        None \<Rightarrow> (\<lparr>code = 400, body = ErrorBody ''No jobId provided''\<rparr>, d)
      | Some k \<Rightarrow>
          if k = [] then (\<lparr>code = 400, body = ErrorBody ''No jobId provided''\<rparr>, d)
          else
            (case getJob k now d of
               (None, d') \<Rightarrow> (\<lparr>code = 404, body = ErrorBody ''Job not found''\<rparr>, d')
             | (Some job, d') \<Rightarrow> (\<lparr>code = 200, body = JobBody job\<rparr>, d')))"

section \<open>The life of one job\<close>

text \<open>
  The steps that touch the store while one submission is served: the handler creates the
  job, then either fails to read the image or marks the job as processing and starts the
  detached function, which settles the job once. Between these steps any other call of
  the store may run: a read of any id (the status endpoint), a sweep, and the creation or
  update of a job with another id.
\<close>

datatype pc = Submitted | Created | Aborted | Started | Settled

inductive lifecycle :: "string \<Rightarrow> pc \<times> directory \<Rightarrow> pc \<times> directory \<Rightarrow> bool"
  for jobId :: string
where
  created: "lifecycle jobId (Submitted, d) (Created, snd (createJob jobId now d))"
| aborted: "lifecycle jobId (Created, d) (Aborted, d)"
| started:
    "lifecycle jobId (Created, d)
       (Started,
        updateJob jobId
          \<lparr>upd_status = Some processing, upd_result = None, upd_error = None,
           upd_timestamp = None\<rparr> now now' d)"
| settled:
    "lifecycle jobId (Started, d) (Settled, detached (Task jobId) response now now' now'' d)"
| other:
    "\<forall>t. c \<noteq> CreateJob jobId t \<Longrightarrow> \<forall>u t t'. c \<noteq> UpdateJob jobId u t t' \<Longrightarrow>
     lifecycle jobId (p, d) (p, exec c d)"

inductive reachable :: "string \<Rightarrow> pc \<times> directory \<Rightarrow> bool"
  for jobId :: string
where
  init: "reachable jobId (Submitted, d)"
| step: "reachable jobId cfg \<Longrightarrow> lifecycle jobId cfg cfg' \<Longrightarrow> reachable jobId cfg'"

text \<open>The record stored for an id, when its entry holds one.\<close>

definition recordOf :: "string \<Rightarrow> directory \<Rightarrow> AnalysisJob option" where
  "recordOf jobId d =
     (case map_of d (getJobPath jobId) of
        Some (Document job) \<Rightarrow> Some job
      | _ \<Rightarrow> None)"

text \<open>The order of the states: pending, processing, terminal.\<close>

fun rank :: "status \<Rightarrow> nat" where
  "rank pending = 0"
| "rank processing = 1"
| "rank completed = 2"
| "rank failed = 2"

definition terminal :: "status \<Rightarrow> bool" where
  "terminal s = (s = completed \<or> s = failed)"

text \<open>
  What the record of the job looks like at each point of the handler and of the detached
  function, for as long as the record is stored.
\<close>

fun shape :: "pc \<Rightarrow> AnalysisJob \<Rightarrow> bool" where
  "shape Submitted job = True"
| "shape Created job = (status job = pending \<and> result job = None \<and> error job = None)"
| "shape Aborted job = (status job = pending \<and> result job = None \<and> error job = None)"
| "shape Started job = (status job = processing \<and> result job = None \<and> error job = None)"
| "shape Settled job =
     (status job = completed \<and> result job \<noteq> None \<and> error job = None \<or>
      status job = failed \<and> error job \<noteq> None \<and> result job = None)"

definition wellShaped :: "string \<Rightarrow> pc \<times> directory \<Rightarrow> bool" where
  "wellShaped jobId cfg =
     (fst cfg = Submitted \<or>
      (case map_of (snd cfg) (getJobPath jobId) of
         None \<Rightarrow> True
       | Some (Document job) \<Rightarrow> shape (fst cfg) job
       | Some _ \<Rightarrow> False))"

section \<open>The parse step in the words of the specification\<close>

text \<open>
  The specification describes a second attempt of the parse step: "locate the first
  top-level \<^verbatim>\<open>{...}\<close> object by brace-matching and parse that". The two definitions below
  follow these words, for the comparison with the code: \<open>braceSpan\<close> counts the braces that
  are open and ends behind the one that closes the first.
\<close>

fun braceSpan :: "nat \<Rightarrow> string \<Rightarrow> string option" where
  "braceSpan depth [] = None"
| "braceSpan depth (c # cs) =
     (if c = CHR ''{'' then map_option ((#) c) (braceSpan (Suc depth) cs)
      else if c = CHR ''}'' then
        (if depth \<le> 1 then Some [c] else map_option ((#) c) (braceSpan (depth - 1) cs))
      else map_option ((#) c) (braceSpan depth cs))"

definition specParseStep :: "string \<Rightarrow> json option" where
  "specParseStep text =
     (let stripped = cleanJsonResponse text in
      case JSON_parse stripped of
        Some v \<Rightarrow> Some v
      | None \<Rightarrow>
          (case braceSpan 0 (dropWhile (\<lambda>c. c \<noteq> CHR ''{'') stripped) of
             None \<Rightarrow> None
           | Some object \<Rightarrow> JSON_parse object))"

section \<open>Properties of the job store\<close>

subsection \<open>Reading and writing one entry\<close>

lemma map_of_writeJob: "map_of (writeJob p job d) = (map_of d)(p \<mapsto> Document job)"
  by (simp add: writeJob_def update_conv')

lemma getJobPath_inject: "getJobPath j = getJobPath k \<longleftrightarrow> j = k"
  by (simp add: getJobPath_def)

lemma getJob_missing: "map_of d (getJobPath jobId) = None \<Longrightarrow> getJob jobId now d = (None, d)"
  by (simp add: getJob_def existsSync_def)

lemma getJob_unreadable:
  "map_of d (getJobPath jobId) = Some Unreadable \<Longrightarrow> getJob jobId now d = (None, d)"
  by (simp add: getJob_def existsSync_def readJob_def)

lemma getJob_garbled:
  "map_of d (getJobPath jobId) = Some Garbled \<Longrightarrow> getJob jobId now d = (None, d)"
  by (simp add: getJob_def existsSync_def readJob_def)

lemma getJob_expired:
  "map_of d (getJobPath jobId) = Some (Document job) \<Longrightarrow> now - timestamp job > 3600000 \<Longrightarrow>
   getJob jobId now d = (None, AList.delete (getJobPath jobId) d)"
  by (simp add: getJob_def existsSync_def readJob_def unlinkSync_def)

lemma getJob_live:
  "map_of d (getJobPath jobId) = Some (Document job) \<Longrightarrow> \<not> now - timestamp job > 3600000 \<Longrightarrow>
   getJob jobId now d = (Some job, d)"
  by (simp add: getJob_def existsSync_def readJob_def)

text \<open>\<open>getJob\<close> leaves the directory as it is or unlinks the entry of its id.\<close>

lemma getJob_directory:
  "snd (getJob jobId now d) = d \<or> snd (getJob jobId now d) = AList.delete (getJobPath jobId) d"
  by (auto simp: getJob_def unlinkSync_def Let_def split: sum.splits)

lemma getJob_other:
  "p \<noteq> getJobPath jobId \<Longrightarrow> map_of (snd (getJob jobId now d)) p = map_of d p"
  using getJob_directory [of jobId now d] by (auto simp: delete_conv')

lemma getJob_keeps_None:
  "map_of d p = None \<Longrightarrow> map_of (snd (getJob jobId now d)) p = None"
  using getJob_directory [of jobId now d] by (auto simp: delete_conv')

lemma getJob_Some:
  "getJob jobId now d = (Some job, d') \<Longrightarrow>
   d' = d \<and> map_of d (getJobPath jobId) = Some (Document job) \<and> \<not> now - timestamp job > 3600000"
  by (auto simp: getJob_def existsSync_def readJob_def Let_def
      split: if_splits sum.splits option.splits jobfile.splits)

lemma getJob_None_cases:
  assumes "fst (getJob jobId now d) = None"
  shows "map_of d (getJobPath jobId) = None \<or> map_of d (getJobPath jobId) = Some Unreadable \<or>
    map_of d (getJobPath jobId) = Some Garbled \<or>
    (\<exists>job. map_of d (getJobPath jobId) = Some (Document job) \<and> now - timestamp job > 3600000)"
proof (cases "map_of d (getJobPath jobId)")
  case None
  then show ?thesis by simp
next
  case (Some f)
  show ?thesis
  proof (cases f)
    case (Document job)
    with Some assms show ?thesis
      by (cases "now - timestamp job > 3600000") (simp_all add: getJob_live)
  qed (use Some in simp_all)
qed

lemma updateJob_other:
  "p \<noteq> getJobPath jobId \<Longrightarrow> map_of (updateJob jobId u now now' d) p = map_of d p"
proof (cases "getJob jobId now d")
  case (Pair r d')
  assume p: "p \<noteq> getJobPath jobId"
  from Pair have "d' = snd (getJob jobId now d)" by simp
  with p have "map_of d' p = map_of d p" by (simp add: getJob_other)
  with Pair p show ?thesis
    by (cases r) (simp_all add: updateJob_def map_of_writeJob)
qed

lemma updateJob_absent:
  "map_of d (getJobPath jobId) = None \<Longrightarrow> updateJob jobId u now now' d = d"
  by (simp add: updateJob_def getJob_missing)

lemma updateJob_unparsed:
  "map_of d (getJobPath jobId) = Some Unreadable \<or> map_of d (getJobPath jobId) = Some Garbled \<Longrightarrow>
   updateJob jobId u now now' d = d"
  by (auto simp: updateJob_def getJob_unreadable getJob_garbled)

lemma updateJob_expired:
  "map_of d (getJobPath jobId) = Some (Document job) \<Longrightarrow> now - timestamp job > 3600000 \<Longrightarrow>
   updateJob jobId u now now' d = AList.delete (getJobPath jobId) d"
  by (simp add: updateJob_def getJob_expired)

lemma updateJob_live:
  "map_of d (getJobPath jobId) = Some (Document job) \<Longrightarrow> \<not> now - timestamp job > 3600000 \<Longrightarrow>
   updateJob jobId u now now' d =
     AList.update (getJobPath jobId) (Document (spread job u now')) d"
  by (simp add: updateJob_def getJob_live writeJob_def)

lemma updateJob_never_creates:
  assumes "fst (getJob jobId now d) = None"
  shows "fst (getJob jobId t (updateJob jobId u now now' d)) = None"
proof -
  from getJob_None_cases [OF assms]
  consider "map_of d (getJobPath jobId) = None"
    | "map_of d (getJobPath jobId) = Some Unreadable \<or> map_of d (getJobPath jobId) = Some Garbled"
    | job where "map_of d (getJobPath jobId) = Some (Document job)" "now - timestamp job > 3600000"
    by auto
  then show ?thesis
  proof cases
    case 1
    then show ?thesis by (simp add: updateJob_absent getJob_missing)
  next
    case 2
    then show ?thesis by (auto simp: updateJob_unparsed getJob_unreadable getJob_garbled)
  next
    case 3
    then have "updateJob jobId u now now' d = AList.delete (getJobPath jobId) d"
      by (rule updateJob_expired)
    then show ?thesis by (simp add: getJob_missing delete_conv')
  qed
qed

subsection \<open>The sweep\<close>

lemma AList_delete_filter: "AList.delete k d = filter (\<lambda>(k', v). k' \<noteq> k) d"
  by (induction d) (auto simp: AList.delete_eq)

lemma cleanup_loop_keeps_None:
  "map_of d p = None \<Longrightarrow> map_of (cleanup_loop h files d) p = None"
proof (induction files arbitrary: d)
  case Nil
  then show ?case by simp
next
  case (Cons name names)
  have del: "map_of (AList.delete name d) p = None"
    using Cons.prems by (simp add: delete_conv')
  show ?case
    using Cons.prems Cons.IH [of d] Cons.IH [OF del]
    by (auto simp: unlinkSync_def split: sum.splits)
qed

lemma cleanup_loop_filter:
  "distinct (map fst d) \<Longrightarrow> distinct names \<Longrightarrow> set names \<subseteq> fst ` set d \<Longrightarrow>
   cleanup_loop (now - 3600000) names d =
     filter (\<lambda>(name, f). \<not> (name \<in> set names \<and> swept now f)) d"
proof (induction names arbitrary: d)
  case Nil
  then show ?case by simp
next
  case (Cons name names)
  from Cons.prems(2) have fresh: "name \<notin> set names" and dn: "distinct names"
    by simp_all
  from Cons.prems(3) obtain f where f: "map_of d name = Some f"
    by (cases "map_of d name") (auto simp: map_of_eq_None_iff)
  have only: "g = f" if "(name, g) \<in> set d" for g
    using that f Cons.prems(1) by simp
  show ?case
  proof (cases "swept now f")
    case True
    with f have step: "cleanup_loop (now - 3600000) (name # names) d =
        cleanup_loop (now - 3600000) names (AList.delete name d)"
      by (cases f) (auto simp: readJob_def unlinkSync_def existsSync_def swept_def)
    have dd: "distinct (map fst (AList.delete name d))"
      using Cons.prems(1) by (simp add: distinct_delete)
    have sub: "set names \<subseteq> fst ` set (AList.delete name d)"
      using Cons.prems(3) fresh by (force simp: AList_delete_filter)
    have "cleanup_loop (now - 3600000) names (AList.delete name d) =
        filter (\<lambda>(n, g). \<not> (n \<in> set names \<and> swept now g)) (AList.delete name d)"
      by (rule Cons.IH [OF dd dn sub])
    also have "\<dots> = filter (\<lambda>(n, g). \<not> (n \<in> set (name # names) \<and> swept now g)) d"
      unfolding AList_delete_filter filter_filter
      using True only by (intro filter_cong) auto
    finally show ?thesis using step by simp
  next
    case False
    with f have step: "cleanup_loop (now - 3600000) (name # names) d =
        cleanup_loop (now - 3600000) names d"
      by (cases f) (auto simp: readJob_def swept_def)
    have "cleanup_loop (now - 3600000) names d =
        filter (\<lambda>(n, g). \<not> (n \<in> set names \<and> swept now g)) d"
      using Cons.prems(1) dn Cons.prems(3) by (intro Cons.IH) auto
    also have "\<dots> = filter (\<lambda>(n, g). \<not> (n \<in> set (name # names) \<and> swept now g)) d"
      using False only by (intro filter_cong) auto
    finally show ?thesis using step by simp
  qed
qed

subsection \<open>Sequences of calls\<close>

lemma exec_keeps_None:
  assumes "map_of d (getJobPath k) = None" and "\<forall>t. c \<noteq> CreateJob k t"
  shows "map_of (exec c d) (getJobPath k) = None"
proof (cases c)
  case (CreateJob j t)
  with assms(2) have "j \<noteq> k" by auto
  with CreateJob assms(1) show ?thesis
    by (simp add: createJob_def map_of_writeJob getJobPath_inject)
next
  case (UpdateJob j u t t')
  show ?thesis
  proof (cases "j = k")
    case True
    with UpdateJob assms(1) show ?thesis by (simp add: updateJob_absent)
  next
    case False
    with UpdateJob assms(1) show ?thesis
      by (simp add: updateJob_other getJobPath_inject)
  qed
next
  case (GetJob j t)
  with assms(1) show ?thesis by (simp add: getJob_keeps_None)
next
  case (Cleanup t)
  with assms(1) show ?thesis by (simp add: cleanup_def cleanup_loop_keeps_None)
qed

lemma run_keeps_None:
  "map_of d (getJobPath k) = None \<Longrightarrow> \<forall>t. CreateJob k t \<notin> set calls \<Longrightarrow>
   map_of (run calls d) (getJobPath k) = None"
  unfolding run_def
proof (induction calls arbitrary: d)
  case Nil
  then show ?case by simp
next
  case (Cons c calls)
  from Cons.prems(2) have "\<forall>t. c \<noteq> CreateJob k t" by auto
  with Cons.prems(1) have "map_of (exec c d) (getJobPath k) = None"
    by (rule exec_keeps_None)
  moreover from Cons.prems(2) have "\<forall>t. CreateJob k t \<notin> set calls" by auto
  ultimately show ?case using Cons.IH by simp
qed

text \<open>Every call keeps a directory that lists each name once.\<close>

lemma distinct_getJob: "distinct (map fst d) \<Longrightarrow> distinct (map fst (snd (getJob jobId now d)))"
  using getJob_directory [of jobId now d] by (auto simp: distinct_delete)

lemma distinct_updateJob:
  "distinct (map fst d) \<Longrightarrow> distinct (map fst (updateJob jobId u now now' d))"
proof (cases "getJob jobId now d")
  case (Pair r d')
  assume "distinct (map fst d)"
  then have "distinct (map fst (snd (getJob jobId now d)))"
    by (rule distinct_getJob)
  with Pair show ?thesis
    by (cases r) (simp_all add: updateJob_def writeJob_def distinct_update)
qed

lemma distinct_exec: "distinct (map fst d) \<Longrightarrow> distinct (map fst (exec c d))"
proof (cases c)
  case (Cleanup t)
  assume d: "distinct (map fst d)"
  with Cleanup show ?thesis
    by (simp add: cleanup_loop_filter [of d "readdirSync d" t, unfolded readdirSync_def]
        cleanup_def readdirSync_def distinct_map_filter)
qed (simp_all add: createJob_def writeJob_def distinct_update distinct_getJob distinct_updateJob)

lemma distinct_run: "distinct (map fst d) \<Longrightarrow> distinct (map fst (run calls d))"
  unfolding run_def by (induction calls arbitrary: d) (simp_all add: distinct_exec)

subsection \<open>\<open>createJob\<close>\<close>

text \<open>
  Claim C9. For every id and every directory, \<open>createJob\<close> returns the id and writes the
  fresh record \<open>{status: pending, timestamp: now}\<close> under the name of the id, whatever
  was stored there: a result, an error or a status of an earlier job of that id is gone, no
  other entry changes, and a read within the retention window returns the fresh record.
\<close>

theorem createJob_overwrites:
  "fst (createJob jobId now d) = jobId \<and>
   map_of (snd (createJob jobId now d)) (getJobPath jobId) =
     Some (Document \<lparr>status = pending, result = None, error = None, timestamp = now\<rparr>) \<and>
   (\<forall>p. p \<noteq> getJobPath jobId \<longrightarrow> map_of (snd (createJob jobId now d)) p = map_of d p) \<and>
   (\<forall>now'. now' - now \<le> 60 * 60 * 1000 \<longrightarrow>
      getJob jobId now' (snd (createJob jobId now d)) =
        (Some \<lparr>status = pending, result = None, error = None, timestamp = now\<rparr>,
         snd (createJob jobId now d)))"
  by (auto simp: createJob_def map_of_writeJob getJob_live)

text \<open>
  The theorem at a directory where the id \<open>j\<close> holds a completed job with a result.
\<close>

theorem createJob_overwrites_witness:
  "''k.json'' \<noteq> getJobPath ''j'' \<and> (20 :: int) - 10 \<le> 60 * 60 * 1000 \<and>
   createJob ''j'' 10
     [(''k.json'', Garbled),
      (''j.json'', Document \<lparr>status = completed, result = Some (JObj []), error = None,
         timestamp = 5\<rparr>)] =
     (''j'',
      [(''k.json'', Garbled),
       (''j.json'', Document \<lparr>status = pending, result = None, error = None,
          timestamp = 10\<rparr>)]) \<and>
   getJob ''j'' 20
     (snd (createJob ''j'' 10
       [(''k.json'', Garbled),
        (''j.json'', Document \<lparr>status = completed, result = Some (JObj []), error = None,
           timestamp = 5\<rparr>)])) =
     (Some \<lparr>status = pending, result = None, error = None, timestamp = 10\<rparr>,
      [(''k.json'', Garbled),
       (''j.json'', Document \<lparr>status = pending, result = None, error = None,
          timestamp = 10\<rparr>)])"
  using createJob_overwrites [of "''j''" 10
      "[(''k.json'', Garbled),
        (''j.json'', Document \<lparr>status = completed, result = Some (JObj []), error = None,
           timestamp = 5\<rparr>)]"]
  by (simp add: getJobPath_def createJob_def writeJob_def)

subsection \<open>\<open>getJob\<close>\<close>



subsection \<open>\<open>updateJob\<close>\<close>

text \<open>
  Claim C4 says that \<open>updateJob\<close> leaves the store completely unchanged when no record
  exists for the id, and merges and writes back when one exists. A record that is stored but
  past the retention window falls under neither half: \<open>getJob\<close> reports it absent, and
  the \<open>getJob\<close> inside \<open>updateJob\<close> unlinks it, so the store changes and nothing is
  merged.
\<close>

theorem updateJob_unchanged_counterexample:
  "getJob ''j'' 3600001
     [(''j.json'', Document \<lparr>status = processing, result = None, error = None,
        timestamp = 0\<rparr>)] = (None, []) \<and>
   updateJob ''j''
     \<lparr>upd_status = Some completed, upd_result = Some (JObj []), upd_error = None,
      upd_timestamp = Some 3600001\<rparr> 3600001 3600001
     [(''j.json'', Document \<lparr>status = processing, result = None, error = None,
        timestamp = 0\<rparr>)] = []"
  by (simp add: updateJob_def getJob_def getJobPath_def existsSync_def readJob_def unlinkSync_def)

text \<open>
  Claim C4, amended. When the entry of the id is missing or cannot be read or parsed,
  \<open>updateJob\<close> leaves the directory unchanged; when the stored record is past the retention
  window, \<open>updateJob\<close> unlinks it and writes nothing; whenever \<open>getJob\<close> reports the id
  absent, it is still absent after \<open>updateJob\<close>; and when the stored record is within the
  window, \<open>updateJob\<close> writes back the record with the supplied fields laid over it and
  the new time stamp.
\<close>

theorem updateJob_cases:
  "(map_of d (getJobPath jobId) = None \<or> map_of d (getJobPath jobId) = Some Unreadable \<or>
      map_of d (getJobPath jobId) = Some Garbled \<longrightarrow>
      updateJob jobId u now now' d = d) \<and>
   (\<forall>job. map_of d (getJobPath jobId) = Some (Document job) \<and>
      now - timestamp job > 60 * 60 * 1000 \<longrightarrow>
      updateJob jobId u now now' d = AList.delete (getJobPath jobId) d) \<and>
   (fst (getJob jobId now d) = None \<longrightarrow>
      (\<forall>t. fst (getJob jobId t (updateJob jobId u now now' d)) = None)) \<and>
   (\<forall>job. map_of d (getJobPath jobId) = Some (Document job) \<and>
      \<not> now - timestamp job > 60 * 60 * 1000 \<longrightarrow>
      updateJob jobId u now now' d =
        AList.update (getJobPath jobId)
          (Document
            \<lparr>status = (case upd_status u of None \<Rightarrow> status job | Some v \<Rightarrow> v),
             result = (case upd_result u of None \<Rightarrow> result job | Some v \<Rightarrow> Some v),
             error = (case upd_error u of None \<Rightarrow> error job | Some v \<Rightarrow> Some v),
             timestamp = now'\<rparr>) d)"
proof (intro conjI allI impI)
  assume "map_of d (getJobPath jobId) = None \<or> map_of d (getJobPath jobId) = Some Unreadable \<or>
      map_of d (getJobPath jobId) = Some Garbled"
  then show "updateJob jobId u now now' d = d"
    using updateJob_absent updateJob_unparsed by blast
next
  fix job
  assume "map_of d (getJobPath jobId) = Some (Document job) \<and> now - timestamp job > 60 * 60 * 1000"
  then show "updateJob jobId u now now' d = AList.delete (getJobPath jobId) d"
    by (simp add: updateJob_expired)
next
  fix t
  assume "fst (getJob jobId now d) = None"
  then show "fst (getJob jobId t (updateJob jobId u now now' d)) = None"
    by (rule updateJob_never_creates)
next
  fix job
  assume "map_of d (getJobPath jobId) = Some (Document job) \<and>
      \<not> now - timestamp job > 60 * 60 * 1000"
  then show "updateJob jobId u now now' d =
        AList.update (getJobPath jobId)
          (Document
            \<lparr>status = (case upd_status u of None \<Rightarrow> status job | Some v \<Rightarrow> v),
             result = (case upd_result u of None \<Rightarrow> result job | Some v \<Rightarrow> Some v),
             error = (case upd_error u of None \<Rightarrow> error job | Some v \<Rightarrow> Some v),
             timestamp = now'\<rparr>) d"
    by (simp add: updateJob_live spread_def)
qed


text \<open>
  The four cases of the amended claim at concrete directories.
\<close>

theorem updateJob_cases_witness:
  "map_of [] (getJobPath ''j'') = None \<and>
   updateJob ''j'' \<lparr>upd_status = Some processing, upd_result = None, upd_error = None,
      upd_timestamp = None\<rparr> 5 6 [] = [] \<and>
   updateJob ''j'' \<lparr>upd_status = Some processing, upd_result = None, upd_error = None,
      upd_timestamp = None\<rparr> 3600001 3600002
     [(''j.json'', Document \<lparr>status = pending, result = None, error = None,
        timestamp = 0\<rparr>)] = [] \<and>
   fst (getJob ''j'' 5 [(''j.json'', Garbled)]) = None \<and>
   fst (getJob ''j'' 9
     (updateJob ''j'' \<lparr>upd_status = Some processing, upd_result = None, upd_error = None,
        upd_timestamp = None\<rparr> 5 6 [(''j.json'', Garbled)])) = None \<and>
   updateJob ''j'' \<lparr>upd_status = Some failed, upd_result = None, upd_error = Some ''boom'',
      upd_timestamp = Some 7\<rparr> 8 9
     [(''j.json'', Document \<lparr>status = processing, result = None, error = None,
        timestamp = 0\<rparr>)] =
     [(''j.json'', Document \<lparr>status = failed, result = None, error = Some ''boom'',
        timestamp = 9\<rparr>)]"
  using updateJob_cases [of "[]" "''j''"
      "\<lparr>upd_status = Some processing, upd_result = None, upd_error = None,
        upd_timestamp = None\<rparr>" 5 6]
    updateJob_cases [of
      "[(''j.json'', Document \<lparr>status = pending, result = None, error = None,
          timestamp = 0\<rparr>)]" "''j''"
      "\<lparr>upd_status = Some processing, upd_result = None, upd_error = None,
        upd_timestamp = None\<rparr>" 3600001 3600002]
    updateJob_cases [of "[(''j.json'', Garbled)]" "''j''"
      "\<lparr>upd_status = Some processing, upd_result = None, upd_error = None,
        upd_timestamp = None\<rparr>" 5 6]
    updateJob_cases [of
      "[(''j.json'', Document \<lparr>status = processing, result = None, error = None,
          timestamp = 0\<rparr>)]" "''j''"
      "\<lparr>upd_status = Some failed, upd_result = None, upd_error = Some ''boom'',
        upd_timestamp = Some 7\<rparr>" 8 9]
  by (simp add: getJobPath_def getJob_def existsSync_def readJob_def)

subsection \<open>\<open>cleanup\<close>\<close>

text \<open>
  Claim C8. In a directory that lists each name once, \<open>cleanup\<close> removes exactly the
  records whose time stamp is earlier than \<open>now\<close> minus one hour and the entries that
  cannot be read or parsed: what is left is the directory without these entries, every
  other entry in its place and unchanged.
\<close>

theorem cleanup_removes_exactly:
  "distinct (map fst d) \<Longrightarrow> cleanup now d = filter (\<lambda>(name, f). \<not> swept now f) d"
proof -
  assume dist: "distinct (map fst d)"
  then have "cleanup_loop (now - 3600000) (map fst d) d =
      filter (\<lambda>(name, f). \<not> (name \<in> set (map fst d) \<and> swept now f)) d"
    by (intro cleanup_loop_filter) auto
  also have "\<dots> = filter (\<lambda>(name, f). \<not> swept now f) d"
    by (intro filter_cong) force+
  finally show ?thesis by (simp add: cleanup_def readdirSync_def)
qed

text \<open>
  A sweep over an old record, a garbled entry, a record exactly one hour old and a recent
  one: the first two go.
\<close>

theorem cleanup_removes_exactly_witness:
  "distinct (map fst
     [(''a.json'', Document \<lparr>status = completed, result = Some (JObj []), error = None,
         timestamp = 0\<rparr>),
      (''b.json'', Garbled),
      (''c.json'', Document \<lparr>status = pending, result = None, error = None,
         timestamp = 1\<rparr>),
      (''d.json'', Document \<lparr>status = processing, result = None, error = None,
         timestamp = 3600000\<rparr>)]) \<and>
   cleanup 3600001
     [(''a.json'', Document \<lparr>status = completed, result = Some (JObj []), error = None,
         timestamp = 0\<rparr>),
      (''b.json'', Garbled),
      (''c.json'', Document \<lparr>status = pending, result = None, error = None,
         timestamp = 1\<rparr>),
      (''d.json'', Document \<lparr>status = processing, result = None, error = None,
         timestamp = 3600000\<rparr>)] =
     [(''c.json'', Document \<lparr>status = pending, result = None, error = None,
         timestamp = 1\<rparr>),
      (''d.json'', Document \<lparr>status = processing, result = None, error = None,
         timestamp = 3600000\<rparr>)]"
  using cleanup_removes_exactly [of
      "[(''a.json'', Document \<lparr>status = completed, result = Some (JObj []), error = None,
          timestamp = 0\<rparr>),
        (''b.json'', Garbled),
        (''c.json'', Document \<lparr>status = pending, result = None, error = None,
          timestamp = 1\<rparr>),
        (''d.json'', Document \<lparr>status = processing, result = None, error = None,
          timestamp = 3600000\<rparr>)]" 3600001]
  by (simp add: swept_def)


section \<open>Properties of the endpoints and of the life of a job\<close>

lemma updateJob_entry:
  "map_of (updateJob jobId u now now' d) (getJobPath jobId) =
     (case map_of d (getJobPath jobId) of
        Some (Document job) \<Rightarrow>
          if now - timestamp job > 3600000 then None else Some (Document (spread job u now'))
      | e \<Rightarrow> e)"
proof (cases "map_of d (getJobPath jobId)")
  case None
  then show ?thesis by (simp add: updateJob_absent)
next
  case (Some f)
  show ?thesis
  proof (cases f)
    case (Document job)
    with Some show ?thesis
      by (cases "now - timestamp job > 3600000")
        (simp_all add: updateJob_expired updateJob_live delete_conv' update_conv')
  qed (use Some in \<open>simp_all add: updateJob_unparsed\<close>)
qed

lemma cleanup_loop_entry:
  "map_of (cleanup_loop h names d) p = map_of d p \<or> map_of (cleanup_loop h names d) p = None"
proof (induction names arbitrary: d)
  case Nil
  then show ?case by simp
next
  case (Cons name names)
  have del: "map_of (AList.delete name d) p = map_of d p \<or> map_of (AList.delete name d) p = None"
    by (simp add: delete_conv')
  show ?case
    using Cons.IH [of d] Cons.IH [of "AList.delete name d"] del
    by (auto simp: unlinkSync_def split: sum.splits)
qed

lemma exec_other_entry:
  assumes "\<forall>t. c \<noteq> CreateJob jobId t" and "\<forall>u t t'. c \<noteq> UpdateJob jobId u t t'"
  shows "map_of (exec c d) (getJobPath jobId) = map_of d (getJobPath jobId) \<or>
    map_of (exec c d) (getJobPath jobId) = None"
proof (cases c)
  case (CreateJob k t)
  with assms(1) have "k \<noteq> jobId" by auto
  with CreateJob show ?thesis
    by (simp add: createJob_def map_of_writeJob getJobPath_inject)
next
  case (UpdateJob k u t t')
  with assms(2) have "k \<noteq> jobId" by auto
  with UpdateJob show ?thesis
    by (simp add: updateJob_other getJobPath_inject)
next
  case (GetJob k t)
  then show ?thesis
    using getJob_directory [of k t d] by (auto simp: delete_conv' split: if_splits)
next
  case (Cleanup t)
  then show ?thesis
    using cleanup_loop_entry [of "t - 60 * 60 * 1000" "readdirSync d" d "getJobPath jobId"]
    by (simp add: cleanup_def)
qed

lemma lifecycle_wellShaped:
  assumes "lifecycle jobId cfg cfg'" and "wellShaped jobId cfg"
  shows "wellShaped jobId cfg'"
  using assms
proof (cases rule: lifecycle.cases)
  case (created d now)
  then show ?thesis
    by (simp add: wellShaped_def createJob_def map_of_writeJob)
next
  case (aborted d)
  with assms(2) show ?thesis
    by (auto simp: wellShaped_def split: option.splits jobfile.splits)
next
  case (started d now now')
  with assms(2) show ?thesis
    by (auto simp: wellShaped_def updateJob_entry spread_def split: option.splits jobfile.splits)
next
  case (settled d response now now' now'')
  with assms(2) show ?thesis
    by (cases "analyzeImage response")
      (auto simp: wellShaped_def detached_def updateJob_entry spread_def
        split: option.splits jobfile.splits)
next
  case (other c p d)
  from exec_other_entry [OF other(3,4), of d] other(1,2) assms(2) show ?thesis
    by (auto simp: wellShaped_def split: option.splits jobfile.splits)
qed

lemma reachable_wellShaped: "reachable jobId cfg \<Longrightarrow> wellShaped jobId cfg"
proof (induction rule: reachable.induct)
  case (init d)
  then show ?case by (simp add: wellShaped_def)
next
  case (step cfg cfg')
  then show ?case by (auto intro: lifecycle_wellShaped)
qed


lemma shape_exclusive:
  "shape p job \<Longrightarrow> p \<noteq> Submitted \<Longrightarrow>
   (result job \<noteq> None \<longrightarrow> status job = completed \<and> error job = None) \<and>
   (error job \<noteq> None \<longrightarrow> status job = failed \<and> result job = None)"
  by (cases p) auto

lemma lifecycle_step:
  assumes step: "lifecycle jobId cfg cfg'"
    and inv: "wellShaped jobId cfg" and p: "fst cfg \<noteq> Submitted"
  shows "(recordOf jobId (snd cfg) = None \<longrightarrow> recordOf jobId (snd cfg') = None) \<and>
    (\<forall>job job'. recordOf jobId (snd cfg) = Some job \<and> recordOf jobId (snd cfg') = Some job' \<longrightarrow>
       rank (status job) \<le> rank (status job') \<and> (terminal (status job) \<longrightarrow> job' = job))"
  using step
proof (cases rule: lifecycle.cases)
  case (created d0 now)
  with p show ?thesis by simp
next
  case (aborted d0)
  then show ?thesis by auto
next
  case (started d0 now now')
  with inv show ?thesis
    by (auto simp: wellShaped_def recordOf_def updateJob_entry spread_def terminal_def
        split: option.splits jobfile.splits if_splits)
next
  case (settled d0 response now now' now'')
  with inv show ?thesis
    by (cases "analyzeImage response")
      (auto simp: wellShaped_def recordOf_def detached_def updateJob_entry spread_def
        terminal_def split: option.splits jobfile.splits if_splits)
next
  case (other c p0 d0)
  from exec_other_entry [OF other(3,4), of d0] other(1,2) show ?thesis
    by (auto simp: recordOf_def split: option.splits jobfile.splits)
qed

text \<open>
  Claim C5. Take any state that a job reaches after its creation, in a run where the handler
  and the detached function make their steps and any other call of the store runs in
  between. In the record stored for the job, a result is present only when the status is
  completed and an error only when it is failed, never both. In every step from that state
  the record, when it is still stored, has a status that is not earlier in the order pending,
  processing, terminal; a record in a terminal state is the same record after the step; and
  a record that has gone (by expiry) does not come back.
\<close>

theorem job_lifecycle:
  assumes "reachable jobId (p, d)" and "p \<noteq> Submitted"
  shows "(\<forall>job. recordOf jobId d = Some job \<longrightarrow>
            (result job \<noteq> None \<longrightarrow> status job = completed \<and> error job = None) \<and>
            (error job \<noteq> None \<longrightarrow> status job = failed \<and> result job = None)) \<and>
         (\<forall>p' d'. lifecycle jobId (p, d) (p', d') \<longrightarrow>
            (recordOf jobId d = None \<longrightarrow> recordOf jobId d' = None) \<and>
            (\<forall>job job'. recordOf jobId d = Some job \<and> recordOf jobId d' = Some job' \<longrightarrow>
               rank (status job) \<le> rank (status job') \<and>
               (terminal (status job) \<longrightarrow> job' = job)))"
proof -
  from assms(1) have inv: "wellShaped jobId (p, d)"
    by (rule reachable_wellShaped)
  have "(result job \<noteq> None \<longrightarrow> status job = completed \<and> error job = None) \<and>
      (error job \<noteq> None \<longrightarrow> status job = failed \<and> result job = None)"
    if "recordOf jobId d = Some job" for job
  proof -
    from that inv assms(2) have "shape p job"
      by (auto simp: wellShaped_def recordOf_def split: option.splits jobfile.splits)
    then show ?thesis using assms(2) by (rule shape_exclusive)
  qed
  moreover have "(recordOf jobId d = None \<longrightarrow> recordOf jobId d' = None) \<and>
      (\<forall>job job'. recordOf jobId d = Some job \<and> recordOf jobId d' = Some job' \<longrightarrow>
         rank (status job) \<le> rank (status job') \<and> (terminal (status job) \<longrightarrow> job' = job))"
    if "lifecycle jobId (p, d) (p', d')" for p' d'
    using lifecycle_step [OF that inv] assms(2) by simp
  ultimately show ?thesis by blast
qed


text \<open>
  A run on the empty directory: created at time 0, marked as processing at time 2, and
  settled as failed when the external service timed out.
\<close>

theorem job_lifecycle_witness:
  "reachable ''j''
     (Started,
      [(''j.json'', Document \<lparr>status = processing, result = None, error = None,
          timestamp = 2\<rparr>)]) \<and>
   Started \<noteq> Submitted \<and>
   lifecycle ''j''
     (Started,
      [(''j.json'', Document \<lparr>status = processing, result = None, error = None,
          timestamp = 2\<rparr>)])
     (Settled,
      [(''j.json'', Document \<lparr>status = failed, result = None,
          error = Some ''Request timed out.'', timestamp = 5\<rparr>)]) \<and>
   recordOf ''j''
     [(''j.json'', Document \<lparr>status = processing, result = None, error = None,
         timestamp = 2\<rparr>)] =
     Some \<lparr>status = processing, result = None, error = None, timestamp = 2\<rparr> \<and>
   recordOf ''j''
     [(''j.json'', Document \<lparr>status = failed, result = None,
         error = Some ''Request timed out.'', timestamp = 5\<rparr>)] =
     Some \<lparr>status = failed, result = None, error = Some ''Request timed out.'',
       timestamp = 5\<rparr> \<and>
   rank processing \<le> rank failed \<and> \<not> terminal processing"
proof -
  let ?u = "\<lparr>upd_status = Some processing, upd_result = None, upd_error = None,
    upd_timestamp = None\<rparr>"
  let ?d = "[(''j.json'', Document \<lparr>status = processing, result = None, error = None,
    timestamp = 2\<rparr>)]"
  let ?d' = "[(''j.json'', Document \<lparr>status = failed, result = None,
    error = Some ''Request timed out.'', timestamp = 5\<rparr>)]"
  have d: "updateJob ''j'' ?u 1 2 (snd (createJob ''j'' 0 [])) = ?d"
    by (simp add: updateJob_def getJob_def createJob_def writeJob_def getJobPath_def
        existsSync_def readJob_def spread_def)
  have d': "detached (Task ''j'') (Rejected (Error ''Request timed out.'')) 3 4 5 ?d = ?d'"
    by (simp add: detached_def analyzeImage_def errorMessage_def updateJob_def getJob_def
        writeJob_def getJobPath_def existsSync_def readJob_def spread_def)
  have "reachable ''j'' (Started, updateJob ''j'' ?u 1 2 (snd (createJob ''j'' 0 [])))"
    by (rule reachable.step [OF reachable.step [OF reachable.init lifecycle.created]
          lifecycle.started])
  then have r: "reachable ''j'' (Started, ?d)"
    by (simp only: d)
  have "lifecycle ''j'' (Started, ?d)
      (Settled, detached (Task ''j'') (Rejected (Error ''Request timed out.'')) 3 4 5 ?d)"
    by (rule lifecycle.settled)
  then have s: "lifecycle ''j'' (Started, ?d) (Settled, ?d')"
    by (simp only: d')
  from job_lifecycle [OF r] r s show ?thesis
    by (simp add: recordOf_def getJobPath_def terminal_def)
qed

lemma analyzeImage_Rejected: "analyzeImage (Rejected e) = Inl e"
  by (simp add: analyzeImage_def)

lemma analyzeImage_unparsed:
  "text \<noteq> [] \<Longrightarrow> JSON_parse (cleanJsonResponse text) = None \<Longrightarrow>
   analyzeImage (Resolved (Some text)) = Inl (Error ''Failed to parse analysis results'')"
  by (simp add: analyzeImage_def parseAndEnrich_def)







section \<open>Properties of the parser\<close>

text \<open>Every lexer and parser returns a rest that is shorter than its input.\<close>

lemma startsWith_length: "startsWith t p \<Longrightarrow> length p \<le> length t"
  by (metis startsWith_def length_take min.cobounded1)

lemma skipWs_length: "length (skipWs s) \<le> length s"
  by (simp add: skipWs_def length_dropWhile_le)

lemma lexString_length: "lexString s = Some (x, r) \<Longrightarrow> length r < length s"
proof (induction s arbitrary: x r rule: lexString.induct)
  case 1
  then show ?case by simp
next
  case (2 c cs)
  show ?case
  proof (cases "c = CHR 0x22")
    case True
    with 2 show ?thesis by simp
  next
    case notq: False
    show ?thesis
    proof (cases "c = CHR 0x5C")
      case True
      with notq "2.prems" obtain e t where cs: "cs = e # t"
        by (cases cs) auto
      show ?thesis
      proof (cases "e = CHR ''u''")
        case u: True
        with True notq cs "2.prems" obtain uc str where
          "unicodeEscape (take 4 t) = Some uc" "lexString (drop 4 t) = Some (str, r)"
          by (auto split: option.splits)
        with "2.IH"(1) [OF notq True cs u] have "length r < length (drop 4 t)"
          by auto
        with cs show ?thesis by simp
      next
        case nu: False
        with True notq cs "2.prems" obtain uc str where
          "simpleEscape e = Some uc" "lexString t = Some (str, r)"
          by (auto split: option.splits)
        with "2.IH"(2) [OF notq True cs nu] have "length r < length t"
          by auto
        with cs show ?thesis by simp
      qed
    next
      case False
      with notq "2.prems" obtain str where "\<not> of_char c < (32 :: nat)" "lexString cs = Some (str, r)"
        by (auto split: option.splits if_splits)
      with "2.IH"(3) [OF notq False] have "length r < length cs"
        by auto
      then show ?thesis by simp
    qed
  qed
qed

lemma lexDigits_length: "lexDigits s = Some (x, r) \<Longrightarrow> length r < length s"
proof -
  assume "lexDigits s = Some (x, r)"
  then have "takeWhile isDigit s \<noteq> []" and r: "r = dropWhile isDigit s"
    by (auto simp: lexDigits_def split: if_splits)
  moreover have "length (takeWhile isDigit s) + length (dropWhile isDigit s) = length s"
    by (metis length_append takeWhile_dropWhile_id)
  ultimately show ?thesis
    by (cases "takeWhile isDigit s") auto
qed

lemma tl_length: "s \<noteq> [] \<Longrightarrow> length (tl s) < length s"
  by (cases s) auto

lemma startsWith_nonempty: "startsWith s (c # p) \<Longrightarrow> s \<noteq> []"
  by (auto simp: startsWith_def)

lemma lexInt_length: "lexInt s = Some (x, r) \<Longrightarrow> length r < length s"
  by (auto simp: lexInt_def dest: lexDigits_length startsWith_nonempty tl_length split: if_splits)

lemma lexFraction_length: "lexFraction s = Some (x, r) \<Longrightarrow> length r \<le> length s"
  by (fastforce simp: lexFraction_def dest: lexDigits_length startsWith_nonempty tl_length
      split: if_splits option.splits)

lemma lexExponent_length: "lexExponent s = Some (x, r) \<Longrightarrow> length r \<le> length s"
  by (fastforce simp: lexExponent_def Let_def dest!: lexDigits_length
      dest: startsWith_nonempty tl_length split: if_splits option.splits)

lemma lexNumber_length: "lexNumber s = Some (x, r) \<Longrightarrow> length r < length s"
  by (fastforce simp: lexNumber_def Let_def
      dest!: lexInt_length lexFraction_length lexExponent_length
      split: if_splits option.splits)


text \<open>
  A successful call consumes at least one character, and it succeeds with the same result
  under every bound from twice the number of characters it consumed.
\<close>

lemma fuel_enough:
  "(\<forall>s v r. parseValue n s = Some (v, r) \<longrightarrow>
      length r < length s \<and>
      (\<forall>m. 2 * (length s - length r) \<le> m \<longrightarrow> parseValue m s = Some (v, r))) \<and>
   (\<forall>s vs r. parseElements n s = Some (vs, r) \<longrightarrow>
      length r < length s \<and>
      (\<forall>m. 2 * (length s - length r) \<le> m \<longrightarrow> parseElements m s = Some (vs, r))) \<and>
   (\<forall>s ms r. parseMembers n s = Some (ms, r) \<longrightarrow>
      length r < length s \<and>
      (\<forall>m. 2 * (length s - length r) \<le> m \<longrightarrow> parseMembers m s = Some (ms, r)))"
proof (induction n)
  case 0
  show ?case by simp
next
  case (Suc n)
  note IHV = Suc.IH [THEN conjunct1, rule_format]
  note IHE = Suc.IH [THEN conjunct2, THEN conjunct1, rule_format]
  note IHM = Suc.IH [THEN conjunct2, THEN conjunct2, rule_format]
  have V: "length r < length s \<and>
      (\<forall>m. 2 * (length s - length r) \<le> m \<longrightarrow> parseValue m s = Some (v, r))"
    if pv: "parseValue (Suc n) s = Some (v, r)" for s v r
  proof -
    let ?t = "skipWs s"
    have ts: "length ?t \<le> length s" by (rule skipWs_length)
    have suc: "\<exists>m'. m = Suc m'" if "2 * (length s - length r) \<le> m" "length r < length s" for m
      using that by (cases m) auto
    consider (lit) "startsWith ?t ''null'' \<or> startsWith ?t ''true'' \<or> startsWith ?t ''false''"
      | (str) "\<not> (startsWith ?t ''null'' \<or> startsWith ?t ''true'' \<or> startsWith ?t ''false'')"
          "startsWith ?t [CHR 0x22]"
      | (arr) "\<not> (startsWith ?t ''null'' \<or> startsWith ?t ''true'' \<or> startsWith ?t ''false'')"
          "\<not> startsWith ?t [CHR 0x22]" "startsWith ?t ''[''"
      | (obj) "\<not> (startsWith ?t ''null'' \<or> startsWith ?t ''true'' \<or> startsWith ?t ''false'')"
          "\<not> startsWith ?t [CHR 0x22]" "\<not> startsWith ?t ''[''" "startsWith ?t ''{''"
      | (num) "\<not> (startsWith ?t ''null'' \<or> startsWith ?t ''true'' \<or> startsWith ?t ''false'')"
          "\<not> startsWith ?t [CHR 0x22]" "\<not> startsWith ?t ''[''" "\<not> startsWith ?t ''{''"
      by blast
    then show ?thesis
    proof cases
      case lit
      with pv have len: "length r < length s"
        using ts by (auto simp: Let_def dest!: startsWith_length split: if_splits)
      moreover have "parseValue m s = Some (v, r)" if "2 * (length s - length r) \<le> m" for m
      proof -
        from suc [OF that len] obtain m' where "m = Suc m'" ..
        with pv lit show ?thesis by (auto simp: Let_def split: if_splits)
      qed
      ultimately show ?thesis by blast
    next
      case str
      with pv obtain x where x: "lexString (tl ?t) = Some (x, r)" "v = JStr x"
        by (auto simp: Let_def split: option.splits)
      from str(2) have "?t \<noteq> []" by (rule startsWith_nonempty)
      with lexString_length [OF x(1)] ts have len: "length r < length s"
        by (cases ?t) auto
      moreover have "parseValue m s = Some (v, r)" if "2 * (length s - length r) \<le> m" for m
      proof -
        from suc [OF that len] obtain m' where "m = Suc m'" ..
        with str x show ?thesis by (simp add: Let_def)
      qed
      ultimately show ?thesis by blast
    next
      case arr
      from arr(3) have ne: "?t \<noteq> []" by (rule startsWith_nonempty)
      then have tl: "Suc (length (tl ?t)) = length ?t" by (cases ?t) auto
      show ?thesis
      proof (cases "startsWith (skipWs (tl ?t)) '']''")
        case True
        with pv arr have r: "r = tl (skipWs (tl ?t))" "v = JArr []"
          by (simp_all add: Let_def)
        from True have "skipWs (tl ?t) \<noteq> []" by (rule startsWith_nonempty)
        then have "length r < length (skipWs (tl ?t))"
          unfolding r by (rule tl_length)
        with skipWs_length [of "tl ?t"] tl ts have len: "length r < length s" by simp
        moreover have "parseValue m s = Some (v, r)" if "2 * (length s - length r) \<le> m" for m
        proof -
          from suc [OF that len] obtain m' where "m = Suc m'" ..
          with arr True r show ?thesis by (simp add: Let_def)
        qed
        ultimately show ?thesis by blast
      next
        case False
        with pv arr obtain vs where e: "parseElements n (tl ?t) = Some (vs, r)" "v = JArr vs"
          by (auto simp: Let_def split: option.splits)
        from IHE [OF e(1)] have l: "length r < length (tl ?t)"
          and en: "\<And>m. 2 * (length (tl ?t) - length r) \<le> m \<Longrightarrow>
            parseElements m (tl ?t) = Some (vs, r)"
          by auto
        from l tl ts have len: "length r < length s" by simp
        moreover have "parseValue m s = Some (v, r)" if "2 * (length s - length r) \<le> m" for m
        proof -
          from suc [OF that len] obtain m' where m: "m = Suc m'" ..
          with that tl ts have "2 * (length (tl ?t) - length r) \<le> m'" by simp
          from en [OF this] arr False e(2) m show ?thesis by (simp add: Let_def)
        qed
        ultimately show ?thesis by blast
      qed
    next
      case obj
      from obj(4) have ne: "?t \<noteq> []" by (rule startsWith_nonempty)
      then have tl: "Suc (length (tl ?t)) = length ?t" by (cases ?t) auto
      show ?thesis
      proof (cases "startsWith (skipWs (tl ?t)) ''}''")
        case True
        with pv obj have r: "r = tl (skipWs (tl ?t))" "v = JObj []"
          by (simp_all add: Let_def)
        from True have "skipWs (tl ?t) \<noteq> []" by (rule startsWith_nonempty)
        then have "length r < length (skipWs (tl ?t))"
          unfolding r by (rule tl_length)
        with skipWs_length [of "tl ?t"] tl ts have len: "length r < length s" by simp
        moreover have "parseValue m s = Some (v, r)" if "2 * (length s - length r) \<le> m" for m
        proof -
          from suc [OF that len] obtain m' where "m = Suc m'" ..
          with obj True r show ?thesis by (simp add: Let_def)
        qed
        ultimately show ?thesis by blast
      next
        case False
        with pv obj obtain ms where e: "parseMembers n (tl ?t) = Some (ms, r)" "v = objectOf ms"
          by (auto simp: Let_def split: option.splits)
        from IHM [OF e(1)] have l: "length r < length (tl ?t)"
          and en: "\<And>m. 2 * (length (tl ?t) - length r) \<le> m \<Longrightarrow>
            parseMembers m (tl ?t) = Some (ms, r)"
          by auto
        from l tl ts have len: "length r < length s" by simp
        moreover have "parseValue m s = Some (v, r)" if "2 * (length s - length r) \<le> m" for m
        proof -
          from suc [OF that len] obtain m' where m: "m = Suc m'" ..
          with that tl ts have "2 * (length (tl ?t) - length r) \<le> m'" by simp
          from en [OF this] obj False e(2) m show ?thesis by (simp add: Let_def)
        qed
        ultimately show ?thesis by blast
      qed
    next
      case num
      with pv obtain x where x: "lexNumber ?t = Some (x, r)" "v = JNum x"
        by (auto simp: Let_def split: option.splits)
      with lexNumber_length [OF x(1)] ts have len: "length r < length s"
        by simp
      moreover have "parseValue m s = Some (v, r)" if "2 * (length s - length r) \<le> m" for m
      proof -
        from suc [OF that len] obtain m' where "m = Suc m'" ..
        with num x show ?thesis by (simp add: Let_def)
      qed
      ultimately show ?thesis by blast
    qed
  qed
  have E: "length r < length s \<and>
      (\<forall>m. 2 * (length s - length r) \<le> m \<longrightarrow> parseElements m s = Some (vs, r))"
    if pe: "parseElements (Suc n) s = Some (vs, r)" for s vs r
  proof -
    from pe obtain v r1 where v: "parseValue n s = Some (v, r1)"
      by (auto split: option.splits)
    from IHV [OF v] have l1: "length r1 < length s"
      and f1: "\<And>m. 2 * (length s - length r1) \<le> m \<Longrightarrow> parseValue m s = Some (v, r1)"
      by auto
    let ?u = "skipWs r1"
    have us: "length ?u \<le> length r1" by (rule skipWs_length)
    have suc: "\<exists>m'. m = Suc m'" if "2 * (length s - length r) \<le> m" "length r < length s" for m
      using that by (cases m) auto
    show ?thesis
    proof (cases "startsWith ?u '',''")
      case True
      then have "?u \<noteq> []" by (rule startsWith_nonempty)
      then have tl: "Suc (length (tl ?u)) = length ?u" by (cases ?u) auto
      from pe v True obtain vs' where e: "parseElements n (tl ?u) = Some (vs', r)" "vs = v # vs'"
        by (auto split: option.splits)
      from IHE [OF e(1)] have l2: "length r < length (tl ?u)"
        and f2: "\<And>m. 2 * (length (tl ?u) - length r) \<le> m \<Longrightarrow>
          parseElements m (tl ?u) = Some (vs', r)"
        by auto
      from l1 l2 tl us have len: "length r < length s" by simp
      moreover have "parseElements m s = Some (vs, r)" if "2 * (length s - length r) \<le> m" for m
      proof -
        from suc [OF that len] obtain m' where m: "m = Suc m'" ..
        with that l1 l2 tl us have "2 * (length s - length r1) \<le> m'"
          and "2 * (length (tl ?u) - length r) \<le> m'"
          by simp_all
        with f1 f2 have "parseValue m' s = Some (v, r1)" "parseElements m' (tl ?u) = Some (vs', r)"
          by simp_all
        with True e(2) m show ?thesis by simp
      qed
      ultimately show ?thesis by blast
    next
      case False
      with pe v have close: "startsWith ?u '']''" and r: "r = tl ?u" and vs: "vs = [v]"
        by (auto split: if_splits)
      from close have "?u \<noteq> []" by (rule startsWith_nonempty)
      then have tl: "Suc (length (tl ?u)) = length ?u" by (cases ?u) auto
      from l1 tl us r have len: "length r < length s" by simp
      moreover have "parseElements m s = Some (vs, r)" if "2 * (length s - length r) \<le> m" for m
      proof -
        from suc [OF that len] obtain m' where m: "m = Suc m'" ..
        with that l1 tl us r have "2 * (length s - length r1) \<le> m'"
          by simp
        with f1 have "parseValue m' s = Some (v, r1)"
          by simp
        with False close r vs m show ?thesis by simp
      qed
      ultimately show ?thesis by blast
    qed
  qed
  have M: "length r < length s \<and>
      (\<forall>m. 2 * (length s - length r) \<le> m \<longrightarrow> parseMembers m s = Some (ms, r))"
    if pm: "parseMembers (Suc n) s = Some (ms, r)" for s ms r
  proof -
    let ?t = "skipWs s"
    have ts: "length ?t \<le> length s" by (rule skipWs_length)
    from pm have q: "startsWith ?t [CHR 0x22]"
      by (auto split: if_splits)
    then have "?t \<noteq> []" by (rule startsWith_nonempty)
    then have tlt: "Suc (length (tl ?t)) = length ?t" by (cases ?t) auto
    from pm q obtain k r0 where k: "lexString (tl ?t) = Some (k, r0)"
      by (auto split: option.splits)
    from lexString_length [OF k] have l0: "length r0 < length (tl ?t)" .
    let ?u = "skipWs r0"
    have us: "length ?u \<le> length r0" by (rule skipWs_length)
    from pm q k have colon: "startsWith ?u '':''"
      by (auto split: if_splits)
    then have "?u \<noteq> []" by (rule startsWith_nonempty)
    then have tlu: "Suc (length (tl ?u)) = length ?u" by (cases ?u) auto
    from pm q k colon obtain v r1 where v: "parseValue n (tl ?u) = Some (v, r1)"
      by (auto split: option.splits)
    from IHV [OF v] have l1: "length r1 < length (tl ?u)"
      and f1: "\<And>m. 2 * (length (tl ?u) - length r1) \<le> m \<Longrightarrow>
        parseValue m (tl ?u) = Some (v, r1)"
      by auto
    let ?w = "skipWs r1"
    have ws: "length ?w \<le> length r1" by (rule skipWs_length)
    have suc: "\<exists>m'. m = Suc m'" if "2 * (length s - length r) \<le> m" "length r < length s" for m
      using that by (cases m) auto
    show ?thesis
    proof (cases "startsWith ?w '',''")
      case True
      then have "?w \<noteq> []" by (rule startsWith_nonempty)
      then have tlw: "Suc (length (tl ?w)) = length ?w" by (cases ?w) auto
      from pm q k colon v True obtain ms' where
        e: "parseMembers n (tl ?w) = Some (ms', r)" "ms = (k, v) # ms'"
        by (auto split: option.splits)
      from IHM [OF e(1)] have l2: "length r < length (tl ?w)"
        and f2: "\<And>m. 2 * (length (tl ?w) - length r) \<le> m \<Longrightarrow>
          parseMembers m (tl ?w) = Some (ms', r)"
        by auto
      from ts tlt l0 us tlu l1 ws tlw l2 have len: "length r < length s" by simp
      moreover have "parseMembers m s = Some (ms, r)" if "2 * (length s - length r) \<le> m" for m
      proof -
        from suc [OF that len] obtain m' where m: "m = Suc m'" ..
        with that ts tlt l0 us tlu l1 ws tlw l2 have "2 * (length (tl ?u) - length r1) \<le> m'"
          and "2 * (length (tl ?w) - length r) \<le> m'"
          by simp_all
        with f1 f2 have "parseValue m' (tl ?u) = Some (v, r1)"
          "parseMembers m' (tl ?w) = Some (ms', r)"
          by simp_all
        with q k colon True e(2) m show ?thesis by simp
      qed
      ultimately show ?thesis by blast
    next
      case False
      with pm q k colon v have close: "startsWith ?w ''}''" and r: "r = tl ?w"
        and ms: "ms = [(k, v)]"
        by (auto split: if_splits)
      from close have "?w \<noteq> []" by (rule startsWith_nonempty)
      then have tlw: "Suc (length (tl ?w)) = length ?w" by (cases ?w) auto
      from ts tlt l0 us tlu l1 ws tlw r have len: "length r < length s" by simp
      moreover have "parseMembers m s = Some (ms, r)" if "2 * (length s - length r) \<le> m" for m
      proof -
        from suc [OF that len] obtain m' where m: "m = Suc m'" ..
        with that ts tlt l0 us tlu l1 ws tlw r have "2 * (length (tl ?u) - length r1) \<le> m'"
          by simp
        with f1 have "parseValue m' (tl ?u) = Some (v, r1)"
          by simp
        with q k colon False close r ms m show ?thesis by simp
      qed
      ultimately show ?thesis by blast
    qed
  qed
  from V E M show ?case by blast
qed

text \<open>
  The bound that \<open>JSON_parse\<close> gives to the parser is enough: whenever the parser returns a
  value under some bound, leaving at most white space, \<open>JSON_parse\<close> returns this value. So
  \<open>JSON_parse\<close> gives \<open>None\<close> only for a text that the parser rejects under every bound.
\<close>

lemma JSON_parse_fuel:
  assumes "parseValue n s = Some (v, rest)" and "skipWs rest = []"
  shows "JSON_parse s = Some v"
proof -
  from fuel_enough [of n] assms(1)
  have "\<forall>m. 2 * (length s - length rest) \<le> m \<longrightarrow> parseValue m s = Some (v, rest)"
    by blast
  moreover have "2 * (length s - length rest) \<le> 2 * length s + 2"
    by arith
  ultimately have "parseValue (2 * length s + 2) s = Some (v, rest)"
    by blast
  with assms(2) show ?thesis
    by (simp only: JSON_parse_def option.case prod.case if_True simp_thms)
qed

section \<open>Properties of the analysis pipeline\<close>

lemma showNat_digits: "set (showNat n) \<subseteq> set ''0123456789''"
proof (induction n rule: showNat.induct)
  case (1 n)
  have digit: "''0123456789'' ! k \<in> set ''0123456789''" if "k < 10" for k
    using that by (intro nth_mem) simp
  show ?case
  proof (cases "n < 10")
    case True
    then have "showNat n = [''0123456789'' ! n]"
      by (subst showNat.simps) (simp only: if_True)
    then have "set (showNat n) = {''0123456789'' ! n}"
      by (simp only: list.set)
    with digit [OF True] show ?thesis
      by (simp only: insert_subset empty_subsetI simp_thms)
  next
    case False
    then have "showNat n = showNat (n div 10) @ [''0123456789'' ! (n mod 10)]"
      by (subst showNat.simps) (simp only: if_False)
    then have "set (showNat n) = set (showNat (n div 10)) \<union> {''0123456789'' ! (n mod 10)}"
      by (simp only: set_append list.set)
    moreover have "''0123456789'' ! (n mod 10) \<in> set ''0123456789''"
      by (rule digit) simp
    ultimately show ?thesis
      using 1 [OF False] by (simp only: Un_subset_iff insert_subset empty_subsetI simp_thms)
  qed
qed

lemma showNat_not_name: "showNat n \<noteq> ''name''"
proof
  assume "showNat n = ''name''"
  then have "CHR ''n'' \<in> set (showNat n)" by simp
  with showNat_digits [of n] show False by auto
qed

lemma index_keys_name: "map_of (zip (map showNat ns) vs) ''name'' = None"
proof -
  have "''name'' \<notin> set (map showNat ns)"
    using showNat_not_name by (metis (no_types, lifting) imageE set_map)
  then show ?thesis
    by (metis option.exhaust map_of_SomeD set_zip_leftD)
qed

lemma ownProperties_name:
  "getProperty v ''name'' = Inr x \<Longrightarrow> map_of (ownProperties v) ''name'' = x"
  by (cases v) (auto simp: getProperty_def ownProperties_def index_keys_name)


lemma ToString_JStr: "ToString (Some (JStr n)) = Inr n"
  by (simp add: ToString_def)

lemma withPapers_Inr:
  assumes "withPapers i = Inr x"
  shows "\<exists>name. ToString (map_of (ownProperties i) ''name'') = Inr name \<and>
    x = JObj (AList.update ''papers''
      (JArr [JObj [(''title'', JStr (''Research about '' @ name)),
                   (''url'', JStr (''https://pubmed.ncbi.nlm.nih.gov/?term='' @
                      encodeURIComponent name))]])
      (ownProperties i))"
proof -
  from assms obtain n where n: "getProperty i ''name'' = Inr n"
    by (auto simp: withPapers_def split: sum.splits)
  then have own: "map_of (ownProperties i) ''name'' = n"
    by (rule ownProperties_name)
  from assms n obtain p where p: "searchPubMedPapers n = Inr p"
    and x: "x = JObj (AList.update ''papers'' p (ownProperties i))"
    by (auto simp: withPapers_def split: sum.splits)
  from p obtain name where "ToString n = Inr name"
    and "p = JArr [JObj [(''title'', JStr (''Research about '' @ name)),
                   (''url'', JStr (''https://pubmed.ncbi.nlm.nih.gov/?term='' @
                      encodeURIComponent name))]]"
    by (auto simp: searchPubMedPapers_def Let_def split: sum.splits)
  with own x show ?thesis by auto
qed

lemma promiseAll_Inr: "promiseAll ps = Inr vs \<Longrightarrow> ps = map Inr vs"
proof (induction ps arbitrary: vs)
  case Nil
  then show ?case by simp
next
  case (Cons p ps)
  then show ?case
    by (cases p) (auto split: sum.splits)
qed

lemma promiseAll_map_Inr: "promiseAll (map Inr vs) = Inr vs"
  by (induction vs) simp_all

lemma addPapers_Inr:
  assumes "addPapers v = Inr r"
  shows "\<exists>xs ys. getProperty v ''ingredients'' = Inr (Some (JArr xs)) \<and>
    r = JObj [(''ingredients'', JArr ys)] \<and> map withPapers xs = map Inr ys"
  using assms
  by (auto simp: addPapers_def split: sum.splits option.splits json.splits
      dest!: promiseAll_Inr)

lemma analyzeImage_Inr:
  assumes "analyzeImage response = Inr r"
  shows "\<exists>text v. response = Resolved (Some text) \<and> text \<noteq> [] \<and>
    JSON_parse (cleanJsonResponse text) = Some v \<and> addPapers v = Inr r"
  using assms
  by (auto simp: analyzeImage_def parseAndEnrich_def
      split: completion.splits option.splits if_splits sum.splits)

lemma analyzeImage_parsed:
  "text \<noteq> [] \<Longrightarrow> JSON_parse (cleanJsonResponse text) = Some v \<Longrightarrow>
   analyzeImage (Resolved (Some text)) =
     (case addPapers v of
        Inl e \<Rightarrow> Inl (Error ''Failed to parse analysis results'')
      | Inr r \<Rightarrow> Inr r)"
  by (simp add: analyzeImage_def parseAndEnrich_def)

text \<open>
  Claim C10. Whenever \<open>analyzeImage\<close> returns a result, the result is an object with the
  list of ingredients, and every ingredient in it is an object whose property \<open>papers\<close> is
  a list of exactly one citation: its title is \<open>Research about\<close> followed by the name of the
  ingredient, and its url is the PubMed search address followed by the URL-encoded name. The
  name is the property \<open>name\<close> as a template literal prints it, which for a string is the
  string itself.
\<close>

theorem analyzeImage_citations:
  assumes "analyzeImage response = Inr r"
  shows "\<exists>ingredients. r = JObj [(''ingredients'', JArr ingredients)] \<and>
    (\<forall>i \<in> set ingredients. \<exists>props name.
       i = JObj props \<and> ToString (map_of props ''name'') = Inr name \<and>
       (\<forall>n. map_of props ''name'' = Some (JStr n) \<longrightarrow> name = n) \<and>
       map_of props ''papers'' =
         Some (JArr [JObj [(''title'', JStr (''Research about '' @ name)),
                           (''url'', JStr (''https://pubmed.ncbi.nlm.nih.gov/?term='' @
                              encodeURIComponent name))]]))"
proof -
  from analyzeImage_Inr [OF assms] obtain v where "addPapers v = Inr r"
    by blast
  from addPapers_Inr [OF this] obtain xs ys
    where r: "r = JObj [(''ingredients'', JArr ys)]"
      and ys: "map withPapers xs = map Inr ys"
    by blast
  have "\<exists>props name.
       i = JObj props \<and> ToString (map_of props ''name'') = Inr name \<and>
       (\<forall>n. map_of props ''name'' = Some (JStr n) \<longrightarrow> name = n) \<and>
       map_of props ''papers'' =
         Some (JArr [JObj [(''title'', JStr (''Research about '' @ name)),
                           (''url'', JStr (''https://pubmed.ncbi.nlm.nih.gov/?term='' @
                              encodeURIComponent name))]])"
    if "i \<in> set ys" for i
  proof -
    from that have "Inr i \<in> set (map withPapers xs)"
      by (simp add: ys)
    then obtain x where "withPapers x = Inr i"
      by auto
    from withPapers_Inr [OF this] obtain name
      where name: "ToString (map_of (ownProperties x) ''name'') = Inr name"
        and i: "i = JObj (AList.update ''papers''
          (JArr [JObj [(''title'', JStr (''Research about '' @ name)),
                       (''url'', JStr (''https://pubmed.ncbi.nlm.nih.gov/?term='' @
                          encodeURIComponent name))]])
          (ownProperties x))"
      by blast
    show ?thesis
      using name i by (intro exI [of _ "AList.update ''papers'' _ (ownProperties x)"] exI [of _ name])
        (auto simp: update_conv' ToString_JStr)
  qed
  with r show ?thesis by blast
qed


text \<open>The theorem at a response with one ingredient.\<close>

theorem analyzeImage_citations_witness:
  \<open>analyzeImage (Resolved (Some
      ''{"ingredients": [{"name": "Palm oil", "classification": "moderate_risk", "explanation": "High in saturated fat."}]}'')) =
     Inr (JObj [(''ingredients'', JArr [JObj
       [(''name'', JStr ''Palm oil''),
        (''classification'', JStr ''moderate_risk''),
        (''explanation'', JStr ''High in saturated fat.''),
        (''papers'', JArr [JObj
           [(''title'', JStr ''Research about Palm oil''),
            (''url'', JStr ''https://pubmed.ncbi.nlm.nih.gov/?term=Palm%20oil'')]])]])]) \<and>
   encodeURIComponent ''Palm oil'' = ''Palm%20oil''\<close>
proof -
  have run: \<open>analyzeImage (Resolved (Some
      ''{"ingredients": [{"name": "Palm oil", "classification": "moderate_risk", "explanation": "High in saturated fat."}]}'')) =
     Inr (JObj [(''ingredients'', JArr [JObj
       [(''name'', JStr ''Palm oil''),
        (''classification'', JStr ''moderate_risk''),
        (''explanation'', JStr ''High in saturated fat.''),
        (''papers'', JArr [JObj
           [(''title'', JStr ''Research about Palm oil''),
            (''url'', JStr ''https://pubmed.ncbi.nlm.nih.gov/?term=Palm%20oil'')]])]])])\<close>
    by code_simp
  have enc: "encodeURIComponent ''Palm oil'' = ''Palm%20oil''"
    by code_simp
  from analyzeImage_citations [OF run] run enc show ?thesis
    by simp
qed


lemma addPapers_not_array:
  "\<forall>xs. getProperty parsed ''ingredients'' \<noteq> Inr (Some (JArr xs)) \<Longrightarrow> \<exists>e. addPapers parsed = Inl e"
  by (auto simp: addPapers_def split: sum.splits option.splits json.splits)

lemma promiseAll_Inl: "Inl e \<in> set ps \<Longrightarrow> \<exists>e'. promiseAll ps = Inl e'"
proof (induction ps)
  case Nil
  then show ?case by simp
next
  case (Cons p ps)
  then show ?case by (cases p) (auto split: sum.splits)
qed

lemma withPapers_null: "withPapers JNull = Inl (Error ''Cannot read properties of null'')"
  by (simp add: withPapers_def getProperty_def)

lemma addPapers_null:
  assumes "getProperty parsed ''ingredients'' = Inr (Some (JArr xs))" and "JNull \<in> set xs"
  shows "\<exists>e. addPapers parsed = Inl e"
proof -
  from assms(2) have "Inl (Error ''Cannot read properties of null'') \<in> set (map withPapers xs)"
    using withPapers_null by force
  from promiseAll_Inl [OF this] assms(1) show ?thesis
    by (auto simp: addPapers_def)
qed

lemma withPapers_object:
  "ToString (map_of props ''name'') = Inr name \<Longrightarrow>
   withPapers (JObj props) =
     Inr (JObj (AList.update ''papers''
       (JArr [JObj [(''title'', JStr (''Research about '' @ name)),
                    (''url'', JStr (''https://pubmed.ncbi.nlm.nih.gov/?term='' @
                       encodeURIComponent name))]])
       props))"
  by (simp add: withPapers_def getProperty_def searchPubMedPapers_def ownProperties_def)


lemma addPapers_objects:
  assumes ing: "getProperty parsed ''ingredients'' = Inr (Some (JArr xs))"
    and obj: "\<forall>x \<in> set xs. \<exists>props name. x = JObj props \<and> ToString (map_of props ''name'') = Inr name"
  shows "\<exists>ys. addPapers parsed = Inr (JObj [(''ingredients'', JArr ys)]) \<and>
    list_all2 (\<lambda>x y. \<exists>props name. x = JObj props \<and>
        ToString (map_of props ''name'') = Inr name \<and>
        y = JObj (AList.update ''papers''
          (JArr [JObj [(''title'', JStr (''Research about '' @ name)),
                       (''url'', JStr (''https://pubmed.ncbi.nlm.nih.gov/?term='' @
                          encodeURIComponent name))]])
          props)) xs ys"
proof -
  let ?P = "\<lambda>x y. \<exists>props name. x = JObj props \<and>
        ToString (map_of props ''name'') = Inr name \<and>
        y = JObj (AList.update ''papers''
          (JArr [JObj [(''title'', JStr (''Research about '' @ name)),
                       (''url'', JStr (''https://pubmed.ncbi.nlm.nih.gov/?term='' @
                          encodeURIComponent name))]])
          props)"
  have each: "\<exists>y. withPapers x = Inr y \<and> ?P x y" if "x \<in> set xs" for x
  proof -
    from obj that obtain props name
      where "x = JObj props" "ToString (map_of props ''name'') = Inr name"
      by blast
    then show ?thesis
      using withPapers_object [of props name] by auto
  qed
  have "\<exists>ys. map withPapers xs = map Inr ys \<and> list_all2 ?P xs ys"
    using each
  proof (induction xs)
    case Nil
    then show ?case by simp
  next
    case (Cons x xs)
    from Cons.prems [of x] obtain y where y: "withPapers x = Inr y" "?P x y"
      by auto
    from Cons.IH Cons.prems obtain ys where "map withPapers xs = map Inr ys" "list_all2 ?P xs ys"
      by auto
    with y have "map withPapers (x # xs) = map Inr (y # ys) \<and> list_all2 ?P (x # xs) (y # ys)"
      by simp
    then show ?case by blast
  qed
  then obtain ys where "map withPapers xs = map Inr ys" and all: "list_all2 ?P xs ys"
    by blast
  then have "addPapers parsed = Inr (JObj [(''ingredients'', JArr ys)])"
    using ing by (simp add: addPapers_def promiseAll_map_Inr)
  with all show ?thesis by blast
qed





subsection \<open>The parse step\<close>

lemma replaceFences_closing:
  "CHR 0x60 \<notin> set inner \<Longrightarrow> replaceFences (inner @ ''\<newline>```'') = inner"
proof (induction inner)
  case Nil
  then show ?case by (simp add: startsWith_def)
next
  case (Cons c cs)
  then show ?case
    by (cases cs) (auto simp: startsWith_def)
qed

lemma replaceFences_fenced:
  "CHR 0x60 \<notin> set inner \<Longrightarrow>
   replaceFences (''```json\<newline>'' @ inner @ ''\<newline>```'') = inner"
  using replaceFences_closing [of inner] by (simp add: startsWith_def)

lemma cleanJsonResponse_fenced:
  "CHR 0x60 \<notin> set inner \<Longrightarrow>
   cleanJsonResponse (''```json\<newline>'' @ inner @ ''\<newline>```'') = trim inner"
  unfolding cleanJsonResponse_def by (rule arg_cong [OF replaceFences_fenced])

lemma matchObject_span:
  assumes "matchObject s = Some m"
  shows "\<exists>pre post. s = pre @ m @ post \<and> CHR ''{'' \<notin> set pre \<and> CHR ''}'' \<notin> set post \<and>
    hd m = CHR ''{'' \<and> last m = CHR ''}''"
proof -
  let ?from = "dropWhile (\<lambda>c. c \<noteq> CHR ''{'') s"
  let ?pre = "takeWhile (\<lambda>c. c \<noteq> CHR ''{'') s"
  let ?post = "rev (takeWhile (\<lambda>c. c \<noteq> CHR ''}'') (rev ?from))"
  from assms have m: "m = rev (dropWhile (\<lambda>c. c \<noteq> CHR ''}'') (rev ?from))" and ne: "m \<noteq> []"
    by (auto simp: matchObject_def Let_def split: if_splits)
  have "rev ?from = takeWhile (\<lambda>c. c \<noteq> CHR ''}'') (rev ?from) @ rev m"
    by (simp add: m)
  then have "rev (rev ?from) = rev (takeWhile (\<lambda>c. c \<noteq> CHR ''}'') (rev ?from) @ rev m)"
    by (rule arg_cong)
  then have split: "?from = m @ ?post"
    by simp
  have s: "s = ?pre @ m @ ?post"
    using split takeWhile_dropWhile_id [of "\<lambda>c. c \<noteq> CHR ''{''" s] by simp
  have pre: "CHR ''{'' \<notin> set ?pre"
    by (auto dest: set_takeWhileD)
  have post: "CHR ''}'' \<notin> set ?post"
    by (auto dest: set_takeWhileD)
  from ne split have "hd m = hd ?from"
    by (metis hd_append2)
  moreover from ne split have "?from \<noteq> []"
    by (metis append_is_Nil_conv)
  ultimately have hd: "hd m = CHR ''{''"
    using hd_dropWhile [of "\<lambda>c. c \<noteq> CHR ''{''" s] by simp
  from ne m have "rev m \<noteq> []" "rev m = dropWhile (\<lambda>c. c \<noteq> CHR ''}'') (rev ?from)"
    by simp_all
  then have "hd (rev m) = CHR ''}''"
    using hd_dropWhile [of "\<lambda>c. c \<noteq> CHR ''}''" "rev ?from"] by simp
  with ne have last: "last m = CHR ''}''"
    by (simp add: hd_rev)
  from s pre post hd last show ?thesis by blast
qed

lemma extractJsonFromText_direct:
  "JSON_parse (cleanJsonResponse text) = Some v \<Longrightarrow> extractJsonFromText text = v"
  by (simp add: extractJsonFromText_def cleanJsonResponse_def)

lemma extractJsonFromText_second:
  "JSON_parse (cleanJsonResponse text) = None \<Longrightarrow>
   extractJsonFromText text =
     (case matchObject (cleanJsonResponse text) of
        None \<Rightarrow> JNull
      | Some m \<Rightarrow> (case JSON_parse m of None \<Rightarrow> JNull | Some v \<Rightarrow> v))"
  by (simp add: extractJsonFromText_def cleanJsonResponse_def)





end
